theory Spec2Isabelle
  imports Main "HOL-Library.AList" "HOL-Library.Char_ord" "HOL-Library.List_Lexorder"
    "HOL-Library.Sublist"
begin

section \<open>Data model (package types)\<close>

text \<open>
  The Go structs are records with the field names of the source. Several structs share
  a field name (\<open>Data\<close>, \<open>Search\<close>, \<open>Draw\<close>); the qualified name (\<open>Column.Data\<close>,
  \<open>Row.Data\<close>) tells them apart.

  \<^item> \<open>int\<close> is the 64-bit Go \<open>int\<close>: a HOL \<open>int\<close> that \<open>Atoi\<close> keeps between
    \<open>minInt\<close> and \<open>maxInt\<close>; the one addition of the source that can overflow
    (\<open>id+1\<close>) is wrapped with \<open>wrap64\<close>.
  \<^item> A slice is a list and a \<open>map[string]string\<close> is an association list whose
    assignments are \<open>AList.update\<close> and whose deletions are \<open>AList.delete\<close>; the
    nil slice and the nil map are the empty list (Go reads both as empty).
  \<^item> \<open>OrderDirection\<close> is a string type with two named constants; its zero value is
    the empty string.
\<close>

type_synonym OrderDirection = string

definition OrderAscending :: OrderDirection where
  "OrderAscending = ''asc''"

definition OrderDescending :: OrderDirection where
  "OrderDescending = ''desc''"

record Search =
  Value :: string
  Regex :: bool

record Order =
  Column :: int
  Dir :: OrderDirection

record Column =
  Data :: string
  Name :: string
  Searchable :: bool
  Orderable :: bool
  Search :: Search

record Request =
  Draw :: int
  Start :: int
  Length :: int
  Search :: Search
  Order :: "Order list"
  Columns :: "Column list"

record Row =
  Data :: "(string \<times> string) list"
  RowID :: string
  RowClass :: string
  RowData :: "(string \<times> string) list"
  RowAttr :: "(string \<times> string) list"

record Response =
  Draw :: int
  RecordsTotal :: int
  RecordsFiltered :: int
  Data :: "Row list"
  Error :: string

text \<open>The zero values Go gives to a declared variable of each struct type.\<close>

definition zeroSearch :: Search where
  "zeroSearch = \<lparr>Value = [], Regex = False\<rparr>"

definition zeroOrder :: Order where
  "zeroOrder = \<lparr>Column = 0, Dir = []\<rparr>"

definition zeroColumn :: Column where
  "zeroColumn = \<lparr>Column.Data = [], Name = [], Searchable = False, Orderable = False,
     Column.Search = zeroSearch\<rparr>"

definition zeroRequest :: Request where
  "zeroRequest = \<lparr>Request.Draw = 0, Start = 0, Length = 0, Request.Search = zeroSearch,
     Order = [], Columns = []\<rparr>"

definition zeroRow :: Row where
  "zeroRow = \<lparr>Row.Data = [], RowID = [], RowClass = [], RowData = [], RowAttr = []\<rparr>"

definition zeroResponse :: Response where
  "zeroResponse = \<lparr>Response.Draw = 0, RecordsTotal = 0, RecordsFiltered = 0,
     Response.Data = [], Error = []\<rparr>"

section \<open>Errors\<close>

text \<open>
  \<open>ErrNotEnoughFields\<close> is the package's own error value. \<open>ErrSyntax\<close> and \<open>ErrRange\<close>
  are the two causes of a \<open>strconv.NumError\<close>. \<open>UnmarshalTypeError\<close> is the error of
  \<open>encoding/json\<close> for a JSON value of the wrong type. \<open>PanicIndexOutOfRange\<close> stands
  for the run-time panic of an index expression outside the slice: it unwinds through
  every caller, which the model renders as an error that every caller returns at once.
\<close>

datatype error =
    ErrNotEnoughFields
  | ErrSyntax
  | ErrRange
  | UnmarshalTypeError
  | PanicIndexOutOfRange

section \<open>strconv\<close>

definition maxInt :: int where
  "maxInt = 2 ^ 63 - 1"

definition minInt :: int where
  "minInt = - (2 ^ 63)"

definition wrap64 :: "int \<Rightarrow> int" where
  "wrap64 x = (x + 2 ^ 63) mod 2 ^ 64 - 2 ^ 63"

definition isDigit :: "char \<Rightarrow> bool" where
  "isDigit c \<longleftrightarrow> CHR ''0'' \<le> c \<and> c \<le> CHR ''9''"

definition digitVal :: "char \<Rightarrow> int" where
  "digitVal c = of_char c - of_char CHR ''0''"

fun digitsVal :: "int \<Rightarrow> string \<Rightarrow> int" where
  "digitsVal n [] = n"
| "digitsVal n (c # cs) = digitsVal (n * 10 + digitVal c) cs"

text \<open>
  \<open>strconv.Atoi\<close>: an optional sign, then one or more decimal digits and nothing else.
  As in Go the number is returned together with the error: \<open>0\<close> with a syntax error,
  the nearest bound with a range error.
\<close>

definition Atoi :: "string \<Rightarrow> int \<times> error option" where
  "Atoi s =
     (let neg = (s \<noteq> [] \<and> hd s = CHR ''-'');
          body = (if s \<noteq> [] \<and> (hd s = CHR ''-'' \<or> hd s = CHR ''+'') then tl s else s)
      in if body = [] \<or> \<not> list_all isDigit body then (0, Some ErrSyntax)
         else let un = digitsVal 0 body
              in if \<not> neg \<and> un > maxInt then (maxInt, Some ErrRange)
                 else if neg \<and> - un < minInt then (minInt, Some ErrRange)
                 else (if neg then - un else un, None))"

definition digitChar :: "nat \<Rightarrow> char" where
  "digitChar d = ''0123456789'' ! d"

fun natString :: "nat \<Rightarrow> string" where
  "natString n = (if n < 10 then [digitChar n] else natString (n div 10) @ [digitChar (n mod 10)])"

declare natString.simps [simp del]

text \<open>\<open>strconv.Itoa\<close>: the decimal rendering, with a minus sign below zero.\<close>

definition Itoa :: "int \<Rightarrow> string" where
  "Itoa i = (if i < 0 then CHR ''-'' # natString (nat (- i)) else natString (nat i))"

section \<open>The key patterns\<close>

text \<open>
  The three regular expressions are anchored at both ends and ungreedy (\<open>(?U)\<close>), and
  \<open>.\<close> matches every character but the newline. Each matcher returns the submatches
  that \<open>FindStringSubmatch\<close> returns after the whole match, or \<open>None\<close> where it returns
  nil.

  \<^item> \<open>[0-9]+\<close> followed by \<open>\]\<close> can only be the whole run of digits.
  \<open>(.+)\]$\<close> at the end of a pattern can only be everything up to a last \<open>]\<close>.
  \<^item> In \<open>columnRegexp\<close> the ungreedy \<open>(.+)\<close> is followed by \<open>\](.*)$\<close>: it takes one
    character and then as few as possible up to the next \<open>]\<close>, and \<open>(.*)\<close> takes
    the rest.
\<close>

fun stripPrefix :: "string \<Rightarrow> string \<Rightarrow> string option" where
  "stripPrefix [] s = Some s"
| "stripPrefix (p # ps) [] = None"
| "stripPrefix (p # ps) (c # cs) = (if p = c then stripPrefix ps cs else None)"

definition newline :: char where
  "newline = CHR 0x0A"

definition notClose :: "char \<Rightarrow> bool" where
  "notClose c \<longleftrightarrow> c \<noteq> CHR '']''"

text \<open>\<open>(?U)^search\[(.+)\]$\<close>\<close>

definition searchRegexp :: "string \<Rightarrow> string option" where
  "searchRegexp k =
     (case stripPrefix ''search['' k of
        None \<Rightarrow> None
      | Some x \<Rightarrow>
          if 2 \<le> length x \<and> last x = CHR '']'' \<and> newline \<notin> set x then Some (butlast x)
          else None)"

text \<open>\<open>(?U)^order\[([0-9]+)\]\[(.+)\]$\<close>\<close>

definition orderRegexp :: "string \<Rightarrow> (string \<times> string) option" where
  "orderRegexp k =
     (case stripPrefix ''order['' k of
        None \<Rightarrow> None
      | Some s \<Rightarrow>
          if takeWhile isDigit s = [] then None
          else (case stripPrefix '']['' (dropWhile isDigit s) of
                  None \<Rightarrow> None
                | Some x \<Rightarrow>
                    if 2 \<le> length x \<and> last x = CHR '']'' \<and> newline \<notin> set x
                    then Some (takeWhile isDigit s, butlast x)
                    else None))"

text \<open>\<open>(?U)^columns\[([0-9]+)\]\[(.+)\](.*)$\<close>\<close>

definition columnRegexp :: "string \<Rightarrow> (string \<times> string \<times> string) option" where
  "columnRegexp k =
     (case stripPrefix ''columns['' k of
        None \<Rightarrow> None
      | Some s \<Rightarrow>
          if takeWhile isDigit s = [] then None
          else (case stripPrefix '']['' (dropWhile isDigit s) of
                  None \<Rightarrow> None
                | Some [] \<Rightarrow> None
                | Some (c # cs) \<Rightarrow>
                    if newline \<in> set (c # cs) \<or> CHR '']'' \<notin> set cs then None
                    else Some (takeWhile isDigit s, c # takeWhile notClose cs,
                               tl (dropWhile notClose cs))))"

section \<open>Form decoder\<close>

text \<open>
  Every function returns both of its Go results, the value and the error, as a pair:
  the source returns a value next to a non-nil error too (\<open>return in, err\<close>).
\<close>

definition parseSearch :: "Search \<Rightarrow> string \<Rightarrow> string \<Rightarrow> Search \<times> error option" where
  "parseSearch s k v =
     (case searchRegexp k of
        None \<Rightarrow> (s, Some ErrNotEnoughFields)
      | Some m1 \<Rightarrow>
          if m1 = ''value'' then (s\<lparr>Value := v\<rparr>, None)
          else if m1 = ''regex'' then
            (if v = ''true'' then (s\<lparr>Regex := True\<rparr>, None) else (s\<lparr>Regex := False\<rparr>, None))
          else (s, None))"

text \<open>
  The names \<open>id\<close>, \<open>in\<close> and \<open>o\<close> of the source are written \<open>id'\<close>, \<open>in'\<close> and \<open>o'\<close>.

  \<open>grow zero id' xs\<close> is the slice \<open>out\<close> after
  \<^verbatim>\<open>if id+1 > len(in) { out = make([]T, id+1); copy(out, in) } else { out = in }\<close>
  for the slice \<open>xs\<close> that comes in. \<open>make\<close> is taken to succeed whatever the length.
  An index expression \<open>out[id]\<close> panics when \<open>id\<close> is outside the slice (\<open>inRange\<close>);
  that can only happen when \<open>id+1\<close> has overflowed. A pattern that matches gives all
  its submatches, so the test \<open>len(m) > 3\<close> of \<open>parseColumn\<close> is true where it stands.
\<close>

definition grow :: "'a \<Rightarrow> int \<Rightarrow> 'a list \<Rightarrow> 'a list" where
  "grow zero id' xs =
     (if wrap64 (id' + 1) > int (length xs)
      then xs @ replicate (nat (id' + 1) - length xs) zero
      else xs)"

definition inRange :: "int \<Rightarrow> 'a list \<Rightarrow> bool" where
  "inRange id' xs \<longleftrightarrow> 0 \<le> id' \<and> id' < int (length xs)"

definition parseOrder :: "Order list \<Rightarrow> string \<Rightarrow> string \<Rightarrow> Order list \<times> error option" where
  "parseOrder o' k v =
     (case orderRegexp k of
        None \<Rightarrow> (o', Some ErrNotEnoughFields)
      | Some (m1, m2) \<Rightarrow>
          (case Atoi m1 of
             (id', Some e) \<Rightarrow> ([], Some e)
           | (id', None) \<Rightarrow>
               let out = grow zeroOrder id' o' in
               if m2 = ''column'' then
                 (if \<not> inRange id' out then (out, Some PanicIndexOutOfRange)
                  else (out[nat id' := (out ! nat id')\<lparr>Column := fst (Atoi v)\<rparr>], snd (Atoi v)))
               else if m2 = ''dir'' then
                 (if v = ''asc'' then
                    (if \<not> inRange id' out then (out, Some PanicIndexOutOfRange)
                     else (out[nat id' := (out ! nat id')\<lparr>Dir := OrderAscending\<rparr>], None))
                  else if v = ''desc'' then
                    (if \<not> inRange id' out then (out, Some PanicIndexOutOfRange)
                     else (out[nat id' := (out ! nat id')\<lparr>Dir := OrderDescending\<rparr>], None))
                  else (out, None))
               else (out, None)))"

definition parseColumn :: "Column list \<Rightarrow> string \<Rightarrow> string \<Rightarrow> Column list \<times> error option" where
  "parseColumn in' k v =
     (case columnRegexp k of
        None \<Rightarrow> (in', Some ErrNotEnoughFields)
      | Some (m1, m2, m3) \<Rightarrow>
          (case Atoi m1 of
             (id', Some e) \<Rightarrow> (in', Some e)
           | (id', None) \<Rightarrow>
               let out = grow zeroColumn id' in' in
               if m2 = ''data'' then
                 (if \<not> inRange id' out then (out, Some PanicIndexOutOfRange)
                  else (out[nat id' := (out ! nat id')\<lparr>Column.Data := v\<rparr>], None))
               else if m2 = ''name'' then
                 (if \<not> inRange id' out then (out, Some PanicIndexOutOfRange)
                  else (out[nat id' := (out ! nat id')\<lparr>Name := v\<rparr>], None))
               else if m2 = ''searchable'' then
                 (if \<not> inRange id' out then (out, Some PanicIndexOutOfRange)
                  else if v = ''true''
                  then (out[nat id' := (out ! nat id')\<lparr>Searchable := True\<rparr>], None)
                  else (out[nat id' := (out ! nat id')\<lparr>Searchable := False\<rparr>], None))
               else if m2 = ''orderable'' then
                 (if \<not> inRange id' out then (out, Some PanicIndexOutOfRange)
                  else if v = ''true''
                  then (out[nat id' := (out ! nat id')\<lparr>Orderable := True\<rparr>], None)
                  else (out[nat id' := (out ! nat id')\<lparr>Orderable := False\<rparr>], None))
               else if m2 = ''search'' then
                 (if \<not> inRange id' out then (out, Some PanicIndexOutOfRange)
                  else (case parseSearch (Column.Search (out ! nat id')) (''search'' @ m3) v of
                          (s, err) \<Rightarrow> (out[nat id' := (out ! nat id')\<lparr>Column.Search := s\<rparr>], err)))
               else (out, None)))"

text \<open>
  The body of the loop of \<open>ParseURLValues\<close> for a key \<open>k\<close> and the first value \<open>v0\<close> of
  its list: the \<open>switch\<close>, with the request and \<open>err\<close> after it.
\<close>

definition parseKey :: "Request \<Rightarrow> string \<Rightarrow> string \<Rightarrow> Request \<times> error option" where
  "parseKey r k v0 =
     (if k = ''draw'' then (r\<lparr>Request.Draw := fst (Atoi v0)\<rparr>, snd (Atoi v0))
      else if k = ''start'' then (r\<lparr>Start := fst (Atoi v0)\<rparr>, snd (Atoi v0))
      else if k = ''length'' then (r\<lparr>Length := fst (Atoi v0)\<rparr>, snd (Atoi v0))
      else if prefix ''search'' k then
        (case parseSearch (Request.Search r) k v0 of (s, err) \<Rightarrow> (r\<lparr>Request.Search := s\<rparr>, err))
      else if prefix ''order'' k then
        (case parseOrder (Order r) k v0 of (out, err) \<Rightarrow> (r\<lparr>Order := out\<rparr>, err))
      else if prefix ''column'' k then
        (case parseColumn (Columns r) k v0 of (out, err) \<Rightarrow> (r\<lparr>Columns := out\<rparr>, err))
      else (r, None))"

text \<open>
  \<open>url.Values\<close> is a \<open>map[string][]string\<close>, and Go does not fix the order in which
  \<open>range\<close> visits a map. The model takes the entries as the list in which the loop
  visits them, so a statement about every list is a statement about every order.
\<close>

fun ParseURLValues_loop :: "(string \<times> string list) list \<Rightarrow> Request \<Rightarrow> Request \<times> error option" where
  "ParseURLValues_loop [] r = (r, None)"
| "ParseURLValues_loop ((k, v) # u) r =
     (if length v < 1 then ParseURLValues_loop u r
      else (case parseKey r k (v ! 0) of
              (r', Some e) \<Rightarrow> (r', Some e)
            | (r', None) \<Rightarrow> ParseURLValues_loop u r'))"

definition ParseURLValues :: "(string \<times> string list) list \<Rightarrow> Request \<times> error option" where
  "ParseURLValues u = ParseURLValues_loop u zeroRequest"

section \<open>encoding/json\<close>

text \<open>
  A JSON document is taken as its syntax tree: \<open>json.Marshal\<close> builds the tree and
  \<open>json.Unmarshal\<close> reads it, so the text between the two (spacing, escapes) is not part
  of the model. The members of an object are a list, in the order of the document, and
  a name may occur more than once. \<open>JNumber\<close> is an integer literal.

  \<open>json.Unmarshal\<close> leaves in its destination what it decoded before an error; every
  caller in this package drops the destination when the error is not nil, so the
  decoders return the error alone (\<open>Inl\<close>) or the decoded value (\<open>Inr\<close>).
\<close>

datatype json =
    JNull
  | JBool bool
  | JNumber int
  | JString string
  | JArray "json list"
  | JObject "(string \<times> json) list"

definition andThen :: "error + 'a \<Rightarrow> ('a \<Rightarrow> error + 'b) \<Rightarrow> error + 'b" where
  "andThen x f = (case x of Inl e \<Rightarrow> Inl e | Inr a \<Rightarrow> f a)"

text \<open>
  A JSON value into a destination of a basic type that holds \<open>cur\<close>: \<open>null\<close> leaves
  the destination as it is, a value of another type is an \<open>UnmarshalTypeError\<close>.
\<close>

definition unmarshalString :: "json \<Rightarrow> string \<Rightarrow> error + string" where
  "unmarshalString v cur =
     (case v of JString s \<Rightarrow> Inr s | JNull \<Rightarrow> Inr cur | _ \<Rightarrow> Inl UnmarshalTypeError)"

definition unmarshalBool :: "json \<Rightarrow> bool \<Rightarrow> error + bool" where
  "unmarshalBool v cur =
     (case v of JBool b \<Rightarrow> Inr b | JNull \<Rightarrow> Inr cur | _ \<Rightarrow> Inl UnmarshalTypeError)"

definition unmarshalInt :: "json \<Rightarrow> int \<Rightarrow> error + int" where
  "unmarshalInt v cur =
     (case v of
        JNumber n \<Rightarrow> if minInt \<le> n \<and> n \<le> maxInt then Inr n else Inl UnmarshalTypeError
      | JNull \<Rightarrow> Inr cur
      | _ \<Rightarrow> Inl UnmarshalTypeError)"

text \<open>
  Into a slice: \<open>null\<close> gives the nil slice; the elements of an array are decoded one
  by one, the \<open>i\<close>-th into the \<open>i\<close>-th element the slice already has, or into a zero
  element when the slice is shorter, and the slice ends with the array.
\<close>

fun unmarshalElems :: "(json \<Rightarrow> 'a \<Rightarrow> error + 'a) \<Rightarrow> 'a \<Rightarrow> json list \<Rightarrow> 'a list \<Rightarrow> error + 'a list" where
  "unmarshalElems f zero [] cur = Inr []"
| "unmarshalElems f zero (x # xs) cur =
     andThen (f x (case cur of [] \<Rightarrow> zero | c # _ \<Rightarrow> c)) (\<lambda>a.
     andThen (unmarshalElems f zero xs (tl cur)) (\<lambda>as. Inr (a # as)))"

definition unmarshalSlice :: "(json \<Rightarrow> 'a \<Rightarrow> error + 'a) \<Rightarrow> 'a \<Rightarrow> json \<Rightarrow> 'a list \<Rightarrow> error + 'a list" where
  "unmarshalSlice f zero v cur =
     (case v of
        JNull \<Rightarrow> Inr []
      | JArray xs \<Rightarrow> unmarshalElems f zero xs cur
      | _ \<Rightarrow> Inl UnmarshalTypeError)"

text \<open>
  Into a \<open>map[string]string\<close> that holds \<open>cur\<close>: \<open>null\<close> gives the nil map; the members
  of an object are stored one by one under their names, a later member over an
  earlier one of the same name. A member's value goes into a new zero string, so \<open>null\<close>
  stores the empty string.
\<close>

fun unmarshalMembers :: "(string \<times> json) list \<Rightarrow> (string \<times> string) list \<Rightarrow> error + (string \<times> string) list" where
  "unmarshalMembers [] cur = Inr cur"
| "unmarshalMembers ((k, v) # ms) cur =
     andThen (unmarshalString v []) (\<lambda>s. unmarshalMembers ms (AList.update k s cur))"

definition unmarshalStringMap :: "json \<Rightarrow> (string \<times> string) list \<Rightarrow> error + (string \<times> string) list" where
  "unmarshalStringMap v cur =
     (case v of
        JNull \<Rightarrow> Inr []
      | JObject ms \<Rightarrow> unmarshalMembers ms cur
      | _ \<Rightarrow> Inl UnmarshalTypeError)"

text \<open>
  A \<open>map[string]string\<close> as JSON: an object whose members are sorted by name. The
  association list of a Go map has no name twice.
\<close>

definition marshalStringMap :: "(string \<times> string) list \<Rightarrow> json" where
  "marshalStringMap m = JObject (sort_key fst (map (\<lambda>(k, v). (k, JString v)) m))"

text \<open>
  A slice as JSON. The empty list stands for the nil slice, which is encoded as \<open>null\<close>
  (an empty slice that is not nil would be \<open>[]\<close>; both decode to the empty list).
\<close>

definition marshalSlice :: "('a \<Rightarrow> json) \<Rightarrow> 'a list \<Rightarrow> json" where
  "marshalSlice f xs = (if xs = [] then JNull else JArray (map f xs))"

text \<open>
  The field of a struct for the name of a member: \<open>json.Unmarshal\<close> prefers the field
  whose tag is the name, and otherwise takes the first field whose tag is the name up
  to the case of letters. \<open>foldName\<close> is the case folding it compares with: ASCII
  letters to upper case, and the two characters outside ASCII that fold to an ASCII
  letter, the long s (U+017F, bytes C5 BF) to \<open>S\<close> and the Kelvin sign (U+212A, bytes
  E2 84 AA) to \<open>K\<close>. All tags of this package are ASCII, so no other character can
  take part in a match.
\<close>

definition toUpper :: "char \<Rightarrow> char" where
  "toUpper c =
     (case map_of (zip ''abcdefghijklmnopqrstuvwxyz'' ''ABCDEFGHIJKLMNOPQRSTUVWXYZ'') c of
        Some u \<Rightarrow> u
      | None \<Rightarrow> c)"

fun foldName :: "string \<Rightarrow> string" where
  "foldName (a # b # c # cs) =
     (if a = CHR 0xE2 \<and> b = CHR 0x84 \<and> c = CHR 0xAA then CHR ''K'' # foldName cs
      else if a = CHR 0xC5 \<and> b = CHR 0xBF then CHR ''S'' # foldName (c # cs)
      else toUpper a # foldName (b # c # cs))"
| "foldName [a, b] =
     (if a = CHR 0xC5 \<and> b = CHR 0xBF then [CHR ''S''] else [toUpper a, toUpper b])"
| "foldName [a] = [toUpper a]"
| "foldName [] = []"

declare foldName.simps [simp del]

definition structField :: "string list \<Rightarrow> string \<Rightarrow> string option" where
  "structField tags key =
     (case find (\<lambda>t. t = key) tags of
        Some t \<Rightarrow> Some t
      | None \<Rightarrow> find (\<lambda>t. foldName t = foldName key) tags)"

text \<open>
  Into a struct that holds \<open>a\<close>: \<open>null\<close> leaves it as it is; the members of an object
  are decoded one by one, in the order of the document, each into the field its name
  stands for (\<open>f k v a\<close> is the struct after the member \<open>k\<close> with the value \<open>v\<close>).
\<close>

fun unmarshalStruct :: "(string \<Rightarrow> json \<Rightarrow> 'a \<Rightarrow> error + 'a) \<Rightarrow> (string \<times> json) list \<Rightarrow> 'a \<Rightarrow> error + 'a" where
  "unmarshalStruct f [] a = Inr a"
| "unmarshalStruct f ((k, v) # ms) a = andThen (f k v a) (unmarshalStruct f ms)"

definition unmarshalObject :: "(string \<Rightarrow> json \<Rightarrow> 'a \<Rightarrow> error + 'a) \<Rightarrow> json \<Rightarrow> 'a \<Rightarrow> error + 'a" where
  "unmarshalObject f v a =
     (case v of
        JNull \<Rightarrow> Inr a
      | JObject ms \<Rightarrow> unmarshalStruct f ms a
      | _ \<Rightarrow> Inl UnmarshalTypeError)"

section \<open>Row codec\<close>

text \<open>
  The struct \<open>rowCopy\<close> that \<open>Row.UnmarshalJSON\<close> declares, and its decoding: a member
  whose name matches a field is decoded into that field, any other member is skipped.
\<close>

record rowCopy =
  RowID :: string
  RowClass :: string
  RowData :: "(string \<times> string) list"
  RowAttr :: "(string \<times> string) list"

definition zeroRowCopy :: rowCopy where
  "zeroRowCopy = \<lparr>rowCopy.RowID = [], rowCopy.RowClass = [], rowCopy.RowData = [],
     rowCopy.RowAttr = []\<rparr>"

definition rowCopyTags :: "string list" where
  "rowCopyTags = [''DT_RowId'', ''DT_RowClass'', ''DT_RowData'', ''DT_RowAttr'']"

definition unmarshalRowCopy_member :: "string \<Rightarrow> json \<Rightarrow> rowCopy \<Rightarrow> error + rowCopy" where
  "unmarshalRowCopy_member k v c =
     (case structField rowCopyTags k of
        None \<Rightarrow> Inr c
      | Some t \<Rightarrow>
          if t = ''DT_RowId'' then
            andThen (unmarshalString v (rowCopy.RowID c)) (\<lambda>s. Inr (c\<lparr>rowCopy.RowID := s\<rparr>))
          else if t = ''DT_RowClass'' then
            andThen (unmarshalString v (rowCopy.RowClass c)) (\<lambda>s. Inr (c\<lparr>rowCopy.RowClass := s\<rparr>))
          else if t = ''DT_RowData'' then
            andThen (unmarshalStringMap v (rowCopy.RowData c)) (\<lambda>m. Inr (c\<lparr>rowCopy.RowData := m\<rparr>))
          else
            andThen (unmarshalStringMap v (rowCopy.RowAttr c)) (\<lambda>m. Inr (c\<lparr>rowCopy.RowAttr := m\<rparr>)))"

text \<open>
  \<open>Row.UnmarshalJSON\<close> has a pointer receiver: the model takes the row \<open>r\<close> the
  receiver points to and returns the row it points to afterwards, with the error.
  \<open>rowData\<close>, \<open>c\<close> and \<open>data\<close> are fresh variables of the function.
\<close>

definition UnmarshalJSON :: "Row \<Rightarrow> json \<Rightarrow> Row \<times> error option" where
  "UnmarshalJSON r in' =
     (case unmarshalSlice unmarshalString [] in' [] of
        Inr rowData \<Rightarrow>
          (r\<lparr>Row.Data := fold (\<lambda>(i, v) m. AList.update (Itoa (int i)) v m) (enumerate 0 rowData) []\<rparr>,
           None)
      | Inl _ \<Rightarrow>
          (case unmarshalObject unmarshalRowCopy_member in' zeroRowCopy of
             Inl err \<Rightarrow> (r, Some err)
           | Inr c \<Rightarrow>
               let r1 = r\<lparr>Row.RowID := rowCopy.RowID c, Row.RowClass := rowCopy.RowClass c,
                          Row.RowData := rowCopy.RowData c, Row.RowAttr := rowCopy.RowAttr c\<rparr>
               in (case unmarshalStringMap in' [] of
                     Inl err \<Rightarrow> (r1, Some err)
                   | Inr data \<Rightarrow>
                       (r1\<lparr>Row.Data := fold AList.delete rowCopyTags data\<rparr>, None))))"

text \<open>
  \<open>Row.MarshalJSON\<close>: the map \<open>c\<close> of interface values is built entry by entry and
  encoded with its names sorted. Its error result is always nil.
\<close>

definition MarshalJSON :: "Row \<Rightarrow> json" where
  "MarshalJSON r =
     (let c0 = fold (\<lambda>(k, v) c. AList.update k (JString v) c) (Row.Data r) [];
          c1 = (if Row.RowID r \<noteq> [] then AList.update ''DT_RowId'' (JString (Row.RowID r)) c0 else c0);
          c2 = (if Row.RowClass r \<noteq> [] then AList.update ''DT_RowClass'' (JString (Row.RowClass r)) c1
                else c1);
          c3 = (if Row.RowData r \<noteq> []
                then AList.update ''DT_RowData'' (marshalStringMap (Row.RowData r)) c2 else c2);
          c4 = (if Row.RowAttr r \<noteq> []
                then AList.update ''DT_RowAttr'' (marshalStringMap (Row.RowAttr r)) c3 else c3)
      in JObject (sort_key fst c4))"

section \<open>Document codec\<close>

text \<open>
  \<open>Request\<close> and \<open>Response\<close> have no methods of their own for JSON: \<open>json.Marshal\<close>
  and \<open>json.Unmarshal\<close> go by the struct tags. A struct is encoded as an object with
  one member for each field, in the order of the fields; \<open>error\<close> is tagged
  \<open>omitempty\<close> and is left out when it is the empty string. The elements of
  \<open>Response.Data\<close> are encoded with \<open>Row.MarshalJSON\<close> and decoded with
  \<open>Row.UnmarshalJSON\<close>.
\<close>

definition Marshal_Search :: "Search \<Rightarrow> json" where
  "Marshal_Search s = JObject [(''value'', JString (Value s)), (''regex'', JBool (Regex s))]"

definition Marshal_Order :: "Order \<Rightarrow> json" where
  "Marshal_Order o' = JObject [(''column'', JNumber (Column o')), (''dir'', JString (Dir o'))]"

definition Marshal_Column :: "Column \<Rightarrow> json" where
  "Marshal_Column c =
     JObject [(''data'', JString (Column.Data c)), (''name'', JString (Name c)),
              (''searchable'', JBool (Searchable c)), (''orderable'', JBool (Orderable c)),
              (''search'', Marshal_Search (Column.Search c))]"

definition Marshal_Request :: "Request \<Rightarrow> json" where
  "Marshal_Request r =
     JObject [(''draw'', JNumber (Request.Draw r)), (''start'', JNumber (Start r)),
              (''length'', JNumber (Length r)), (''search'', Marshal_Search (Request.Search r)),
              (''order'', marshalSlice Marshal_Order (Order r)),
              (''columns'', marshalSlice Marshal_Column (Columns r))]"

definition Marshal_Response :: "Response \<Rightarrow> json" where
  "Marshal_Response r =
     JObject ([(''draw'', JNumber (Response.Draw r)), (''recordsTotal'', JNumber (RecordsTotal r)),
               (''recordsFiltered'', JNumber (RecordsFiltered r)),
               (''data'', marshalSlice MarshalJSON (Response.Data r))]
              @ (if Error r = [] then [] else [(''error'', JString (Error r))]))"

definition unmarshalSearch_member :: "string \<Rightarrow> json \<Rightarrow> Search \<Rightarrow> error + Search" where
  "unmarshalSearch_member k v s =
     (case structField [''value'', ''regex''] k of
        None \<Rightarrow> Inr s
      | Some t \<Rightarrow>
          if t = ''value'' then andThen (unmarshalString v (Value s)) (\<lambda>x. Inr (s\<lparr>Value := x\<rparr>))
          else andThen (unmarshalBool v (Regex s)) (\<lambda>x. Inr (s\<lparr>Regex := x\<rparr>)))"

definition unmarshalOrder_member :: "string \<Rightarrow> json \<Rightarrow> Order \<Rightarrow> error + Order" where
  "unmarshalOrder_member k v o' =
     (case structField [''column'', ''dir''] k of
        None \<Rightarrow> Inr o'
      | Some t \<Rightarrow>
          if t = ''column'' then andThen (unmarshalInt v (Column o')) (\<lambda>x. Inr (o'\<lparr>Column := x\<rparr>))
          else andThen (unmarshalString v (Dir o')) (\<lambda>x. Inr (o'\<lparr>Dir := x\<rparr>)))"

definition unmarshalColumn_member :: "string \<Rightarrow> json \<Rightarrow> Column \<Rightarrow> error + Column" where
  "unmarshalColumn_member k v c =
     (case structField [''data'', ''name'', ''searchable'', ''orderable'', ''search''] k of
        None \<Rightarrow> Inr c
      | Some t \<Rightarrow>
          if t = ''data'' then
            andThen (unmarshalString v (Column.Data c)) (\<lambda>x. Inr (c\<lparr>Column.Data := x\<rparr>))
          else if t = ''name'' then
            andThen (unmarshalString v (Name c)) (\<lambda>x. Inr (c\<lparr>Name := x\<rparr>))
          else if t = ''searchable'' then
            andThen (unmarshalBool v (Searchable c)) (\<lambda>x. Inr (c\<lparr>Searchable := x\<rparr>))
          else if t = ''orderable'' then
            andThen (unmarshalBool v (Orderable c)) (\<lambda>x. Inr (c\<lparr>Orderable := x\<rparr>))
          else
            andThen (unmarshalObject unmarshalSearch_member v (Column.Search c))
              (\<lambda>x. Inr (c\<lparr>Column.Search := x\<rparr>)))"

definition unmarshalRequest_member :: "string \<Rightarrow> json \<Rightarrow> Request \<Rightarrow> error + Request" where
  "unmarshalRequest_member k v r =
     (case structField [''draw'', ''start'', ''length'', ''search'', ''order'', ''columns''] k of
        None \<Rightarrow> Inr r
      | Some t \<Rightarrow>
          if t = ''draw'' then
            andThen (unmarshalInt v (Request.Draw r)) (\<lambda>x. Inr (r\<lparr>Request.Draw := x\<rparr>))
          else if t = ''start'' then
            andThen (unmarshalInt v (Start r)) (\<lambda>x. Inr (r\<lparr>Start := x\<rparr>))
          else if t = ''length'' then
            andThen (unmarshalInt v (Length r)) (\<lambda>x. Inr (r\<lparr>Length := x\<rparr>))
          else if t = ''search'' then
            andThen (unmarshalObject unmarshalSearch_member v (Request.Search r))
              (\<lambda>x. Inr (r\<lparr>Request.Search := x\<rparr>))
          else if t = ''order'' then
            andThen (unmarshalSlice (unmarshalObject unmarshalOrder_member) zeroOrder v (Order r))
              (\<lambda>x. Inr (r\<lparr>Order := x\<rparr>))
          else
            andThen (unmarshalSlice (unmarshalObject unmarshalColumn_member) zeroColumn v (Columns r))
              (\<lambda>x. Inr (r\<lparr>Columns := x\<rparr>)))"

text \<open>An element of \<open>Response.Data\<close>: \<open>Row.UnmarshalJSON\<close> on the element, its error passed on.\<close>

definition unmarshalRow :: "json \<Rightarrow> Row \<Rightarrow> error + Row" where
  "unmarshalRow v r = (case UnmarshalJSON r v of (r', None) \<Rightarrow> Inr r' | (r', Some e) \<Rightarrow> Inl e)"

definition unmarshalResponse_member :: "string \<Rightarrow> json \<Rightarrow> Response \<Rightarrow> error + Response" where
  "unmarshalResponse_member k v r =
     (case structField [''draw'', ''recordsTotal'', ''recordsFiltered'', ''data'', ''error''] k of
        None \<Rightarrow> Inr r
      | Some t \<Rightarrow>
          if t = ''draw'' then
            andThen (unmarshalInt v (Response.Draw r)) (\<lambda>x. Inr (r\<lparr>Response.Draw := x\<rparr>))
          else if t = ''recordsTotal'' then
            andThen (unmarshalInt v (RecordsTotal r)) (\<lambda>x. Inr (r\<lparr>RecordsTotal := x\<rparr>))
          else if t = ''recordsFiltered'' then
            andThen (unmarshalInt v (RecordsFiltered r)) (\<lambda>x. Inr (r\<lparr>RecordsFiltered := x\<rparr>))
          else if t = ''data'' then
            andThen (unmarshalSlice unmarshalRow zeroRow v (Response.Data r))
              (\<lambda>x. Inr (r\<lparr>Response.Data := x\<rparr>))
          else
            andThen (unmarshalString v (Error r)) (\<lambda>x. Inr (r\<lparr>Error := x\<rparr>)))"

text \<open>\<open>json.Unmarshal\<close> into a newly declared \<open>Request\<close> or \<open>Response\<close>, as the tests do.\<close>

definition Unmarshal_Request :: "json \<Rightarrow> error + Request" where
  "Unmarshal_Request v = unmarshalObject unmarshalRequest_member v zeroRequest"

definition Unmarshal_Response :: "json \<Rightarrow> error + Response" where
  "Unmarshal_Response v = unmarshalObject unmarshalResponse_member v zeroResponse"

section \<open>Notions used to state the properties\<close>




text \<open>
  \<open>sameRow a b\<close>: two rows are equal as Go values are compared by \<open>reflect.DeepEqual\<close>,
  the maps as mappings and not as lists.
  \<open>plainRow r\<close>: the keys of \<open>Data\<close> are pairwise different, as in a Go map, none of them
  is a reserved key up to the case of letters, and \<open>RowData\<close> and \<open>RowAttr\<close> are empty.
  \<open>encodedRow r\<close> lists the members that \<open>Row.MarshalJSON\<close> gives such a row, before they
  are sorted; \<open>jsonString\<close> is the string of a JSON string.
\<close>

definition sameRow :: "Row \<Rightarrow> Row \<Rightarrow> bool" where
  "sameRow a b \<longleftrightarrow>
     map_of (Row.Data a) = map_of (Row.Data b) \<and> Row.RowID a = Row.RowID b
     \<and> Row.RowClass a = Row.RowClass b \<and> map_of (Row.RowData a) = map_of (Row.RowData b)
     \<and> map_of (Row.RowAttr a) = map_of (Row.RowAttr b)"

definition plainRow :: "Row \<Rightarrow> bool" where
  "plainRow r \<longleftrightarrow>
     distinct (map fst (Row.Data r))
     \<and> (\<forall>k \<in> fst ` set (Row.Data r). \<forall>t \<in> set rowCopyTags. foldName k \<noteq> foldName t)
     \<and> Row.RowData r = [] \<and> Row.RowAttr r = []"

definition encodedRow :: "Row \<Rightarrow> (string \<times> json) list" where
  "encodedRow r =
     map (\<lambda>(k, v). (k, JString v)) (Row.Data r)
     @ (if Row.RowID r \<noteq> [] then [(''DT_RowId'', JString (Row.RowID r))] else [])
     @ (if Row.RowClass r \<noteq> [] then [(''DT_RowClass'', JString (Row.RowClass r))] else [])"

fun jsonString :: "json \<Rightarrow> string" where
  "jsonString (JString s) = s"
| "jsonString _ = []"

section \<open>Properties of the form decoder\<close>

lemma stripPrefix_append: "stripPrefix p (p @ s) = Some s"
  by (induction p) simp_all

lemma stripPrefix_Some: "stripPrefix p s = Some t \<Longrightarrow> s = p @ t"
  by (induction p s rule: stripPrefix.induct) (auto split: if_splits)

lemma stripPrefix_prefix: "\<not> prefix p s \<Longrightarrow> stripPrefix p s = None"
  by (induction p s rule: stripPrefix.induct) auto

lemma not_isDigit_close: "\<not> isDigit CHR '']''"
  by (simp add: isDigit_def)



lemma of_char_int: "(of_char c :: int) = int (of_char c)"
  by (simp only: of_nat_of_char)


lemma digitVal_range: "isDigit c \<Longrightarrow> 0 \<le> digitVal c \<and> digitVal c \<le> 9"
  by (simp add: isDigit_def digitVal_def less_eq_char_def of_char_int)










lemma searchRegexp_field:
  "f \<noteq> [] \<Longrightarrow> newline \<notin> set f \<Longrightarrow> searchRegexp (''search['' @ f @ '']'') = Some f"
  using stripPrefix_append [of "''search[''" "f @ '']''"]
  by (cases f) (simp_all add: searchRegexp_def newline_def)





lemma loop_skip_empty: "ParseURLValues_loop (xs @ (k, []) # ys) r = ParseURLValues_loop (xs @ ys) r"
  by (induction xs arbitrary: r) (auto split: prod.splits option.splits)

lemma loop_first_value: "ParseURLValues_loop (xs @ (k, v # vs) # ys) r = ParseURLValues_loop (xs @ (k, [v]) # ys) r"
  by (induction xs arbitrary: r) (auto split: prod.splits option.splits)

lemma loop_append:
  "ParseURLValues_loop (xs @ ys) r =
     (case ParseURLValues_loop xs r of
        (r', Some e) \<Rightarrow> (r', Some e)
      | (r', None) \<Rightarrow> ParseURLValues_loop ys r')"
  by (induction xs arbitrary: r) (auto split: prod.splits option.splits)



lemma parseKey_unknown:
  "k \<notin> {''draw'', ''start'', ''length''} \<Longrightarrow> \<not> prefix ''search'' k \<Longrightarrow>
   \<not> prefix ''order'' k \<Longrightarrow> \<not> prefix ''column'' k \<Longrightarrow> parseKey r k v = (r, None)"
  by (simp add: parseKey_def)

lemma loop_ignore:
  "\<forall>r v0. parseKey r k v0 = (r, None) \<Longrightarrow>
   ParseURLValues_loop (xs @ (k, v) # ys) r = ParseURLValues_loop (xs @ ys) r"
  by (induction xs arbitrary: r) (auto split: prod.splits option.splits)




lemma index_empty: "takeWhile isDigit (CHR '']'' # r) = []"
  by (simp add: not_isDigit_close)











text \<open>
  Claim C9, as amended. The decoder dispatches on the prefixes \<open>search\<close>, \<open>order\<close> and
  \<open>column\<close>, without the bracket. A key that is none of \<open>draw\<close>, \<open>start\<close>, \<open>length\<close> and
  has none of these three prefixes is ignored: the decode with the key, at any place in
  the order of iteration and with any list of values, is the decode without it.
\<close>

theorem unknown_key_ignored:
  assumes "k \<notin> {''draw'', ''start'', ''length''}"
    and "\<not> prefix ''search'' k" and "\<not> prefix ''order'' k" and "\<not> prefix ''column'' k"
  shows "ParseURLValues (xs @ (k, v) # ys) = ParseURLValues (xs @ ys)"
proof -
  have "\<forall>r v0. parseKey r k v0 = (r, None)"
    using assms by (simp add: parseKey_unknown)
  then show ?thesis
    unfolding ParseURLValues_def by (rule loop_ignore)
qed

text \<open>
  Claim C9, an instance: the cache-busting key \<open>_\<close> of the repository's test.
\<close>

theorem unknown_key_ignored_witness:
  "ParseURLValues [(''draw'', [''2'']), (''_'', [''1495876460828'']), (''start'', [''0''])]
     = ParseURLValues [(''draw'', [''2'']), (''start'', [''0''])]"
  using unknown_key_ignored [of "''_''" "[(''draw'', [''2''])]" "[''1495876460828'']" "[(''start'', [''0''])]"]
  by simp

text \<open>
  Claim C9 as stated fails: \<open>orderby\<close> is no bare key and belongs to none of the families
  \<open>columns[...]\<close>, \<open>order[...]\<close>, \<open>search[...]\<close>, yet adding it to the empty input turns
  a successful decode into the failure \<open>ErrNotEnoughFields\<close>.
\<close>

theorem unknown_key_counterexample:
  "''orderby'' \<notin> {''draw'', ''start'', ''length''}
   \<and> \<not> prefix ''columns['' ''orderby'' \<and> \<not> prefix ''order['' ''orderby''
   \<and> \<not> prefix ''search['' ''orderby''
   \<and> ParseURLValues [(''orderby'', [''name''])] = (zeroRequest, Some ErrNotEnoughFields)
   \<and> ParseURLValues [] = (zeroRequest, None)"
  by (simp add: ParseURLValues_def parseKey_def parseOrder_def orderRegexp_def)

text \<open>
  Claim C10. Only the first value of a key's list is read: the further values \<open>vs\<close> do
  not change the result. A key with an empty list is skipped: the result is that of
  the input without the key, and the step itself leaves the request as it is and
  raises no error, whatever the key.
\<close>

theorem first_value_only:
  "ParseURLValues (xs @ (k, v # vs) # ys) = ParseURLValues (xs @ (k, [v]) # ys)
   \<and> ParseURLValues (xs @ (k, []) # ys) = ParseURLValues (xs @ ys)
   \<and> ParseURLValues_loop [(k, [])] r = (r, None)"
  unfolding ParseURLValues_def
  by (intro conjI loop_first_value loop_skip_empty) simp

text \<open>
  Claim C10, an instance: \<open>draw\<close> with three values, and \<open>draw\<close> with none.
\<close>

theorem first_value_only_witness:
  "ParseURLValues [(''draw'', [''7'', ''x'', ''9''])] = ParseURLValues [(''draw'', [''7''])]
   \<and> ParseURLValues [(''draw'', [])] = ParseURLValues []
   \<and> ParseURLValues_loop [(''draw'', [])] zeroRequest = (zeroRequest, None)"
  using first_value_only [of "[]" "''draw''" "''7''" "[''x'', ''9'']" "[]" zeroRequest]
  by simp


























section \<open>Properties of the row codec\<close>

lemma digitChar_inj: "a < 10 \<Longrightarrow> b < 10 \<Longrightarrow> digitChar a = digitChar b \<Longrightarrow> a = b"
proof -
  assume a: "a < 10" and b: "b < 10" and e: "digitChar a = digitChar b"
  have d: "distinct ''0123456789''"
    by simp
  have "a < length ''0123456789''" "b < length ''0123456789''"
    using a b by simp_all
  with d e show "a = b"
    unfolding digitChar_def by (simp only: nth_eq_iff_index_eq)
qed

lemma natString_nonempty: "natString n \<noteq> []"
  by (subst natString.simps) simp

lemma natString_inj: "natString n = natString m \<Longrightarrow> n = m"
proof (induction n arbitrary: m rule: natString.induct)
  case (1 n)
  show ?case
  proof (cases "n < 10")
    case True
    then have n: "natString n = [digitChar n]"
      by (subst natString.simps) simp
    show ?thesis
    proof (cases "m < 10")
      case mt: True
      then have "natString m = [digitChar m]"
        by (subst natString.simps) simp
      with n "1.prems" True mt show ?thesis
        by (simp add: digitChar_inj)
    next
      case mf: False
      then have "natString m = natString (m div 10) @ [digitChar (m mod 10)]"
        by (subst natString.simps) simp
      with n "1.prems" show ?thesis
        by (simp add: natString_nonempty)
    qed
  next
    case False
    then have n: "natString n = natString (n div 10) @ [digitChar (n mod 10)]"
      by (subst natString.simps) simp
    show ?thesis
    proof (cases "m < 10")
      case mt: True
      then have "natString m = [digitChar m]"
        by (subst natString.simps) simp
      with n "1.prems" show ?thesis
        using natString_nonempty [of "n div 10"] by (cases "natString (n div 10)") simp_all
    next
      case mf: False
      then have m: "natString m = natString (m div 10) @ [digitChar (m mod 10)]"
        by (subst natString.simps) simp
      from n m "1.prems" have e: "natString (n div 10) = natString (m div 10)"
        and l: "digitChar (n mod 10) = digitChar (m mod 10)"
        by simp_all
      from "1.IH" [OF False e] have "n div 10 = m div 10" .
      moreover from l have "n mod 10 = m mod 10"
        by (intro digitChar_inj) simp_all
      ultimately show ?thesis
        by (metis div_mult_mod_eq)
    qed
  qed
qed

lemma Itoa_nat_inj: "Itoa (int i) = Itoa (int j) \<Longrightarrow> i = j"
  by (simp add: Itoa_def natString_inj)

lemma update_fresh: "k \<notin> fst ` set al \<Longrightarrow> AList.update k v al = al @ [(k, v)]"
  by (induction al) auto

lemma positional_fold:
  "\<forall>k \<in> fst ` set acc. \<exists>j < n. k = Itoa (int j) \<Longrightarrow>
   fold (\<lambda>(i, v) m. AList.update (Itoa (int i)) v m) (enumerate n xs) acc
     = acc @ map (\<lambda>(i, v). (Itoa (int i), v)) (enumerate n xs)"
proof (induction xs arbitrary: n acc)
  case Nil
  then show ?case by simp
next
  case (Cons x xs)
  have fresh: "Itoa (int n) \<notin> fst ` set acc"
  proof
    assume "Itoa (int n) \<in> fst ` set acc"
    then obtain j where "j < n" "Itoa (int n) = Itoa (int j)"
      using Cons.prems by blast
    then show False
      using Itoa_nat_inj by blast
  qed
  have "\<forall>k \<in> fst ` set (acc @ [(Itoa (int n), x)]). \<exists>j < Suc n. k = Itoa (int j)"
    using Cons.prems by (auto intro: less_SucI)
  from Cons.IH [OF this] show ?case
    by (simp add: update_fresh [OF fresh])
qed

lemma enumerate_nth_map:
  "map (\<lambda>(i, v). (f i, v)) (enumerate 0 xs) = map (\<lambda>i. (f i, xs ! i)) [0..<length xs]"
  by (rule nth_equalityI) (simp_all add: nth_enumerate_eq)

lemma unmarshalElems_strings:
  "unmarshalElems unmarshalString [] (map JString xs) cur = Inr xs"
  by (induction xs arbitrary: cur) (simp_all add: andThen_def unmarshalString_def)

text \<open>
  Claim C4. A JSON array of strings is taken by the first attempt of
  \<open>Row.UnmarshalJSON\<close>, the one for an array, without error. The receiver keeps its
  other fields and its \<open>Data\<close> becomes the map with one entry for each position \<open>i\<close>
  below the length \<open>n\<close> of the array, from the decimal rendering of \<open>i\<close> to the element
  at \<open>i\<close>; these \<open>n\<close> keys are pairwise different. Decoded into a new row, the four
  metadata fields are therefore empty.
\<close>

theorem array_row_decode:
  "UnmarshalJSON r (JArray (map JString xs))
     = (r\<lparr>Row.Data := map (\<lambda>i. (Itoa (int i), xs ! i)) [0..<length xs]\<rparr>, None)
   \<and> distinct (map (\<lambda>i. Itoa (int i)) [0..<length xs])
   \<and> UnmarshalJSON zeroRow (JArray (map JString xs))
     = (\<lparr>Row.Data = map (\<lambda>i. (Itoa (int i), xs ! i)) [0..<length xs],
         Row.RowID = [], Row.RowClass = [], Row.RowData = [], Row.RowAttr = []\<rparr>, None)"
proof -
  have f: "fold (\<lambda>(i, v) m. AList.update (Itoa (int i)) v m) (enumerate 0 xs) []
      = map (\<lambda>i. (Itoa (int i), xs ! i)) [0..<length xs]"
    using positional_fold [of "[]" 0 xs] by (simp add: enumerate_nth_map)
  have u: "UnmarshalJSON r' (JArray (map JString xs))
      = (r'\<lparr>Row.Data := map (\<lambda>i. (Itoa (int i), xs ! i)) [0..<length xs]\<rparr>, None)" for r'
    by (simp add: UnmarshalJSON_def unmarshalSlice_def unmarshalElems_strings f)
  have d: "distinct (map (\<lambda>i. Itoa (int i)) [0..<length xs])"
    by (simp add: distinct_map inj_on_def Itoa_nat_inj)
  show ?thesis
    using d by (simp add: u zeroRow_def)
qed

text \<open>
  Claim C4, an instance: the array \<open>["Airi","Satou"]\<close> of the specification.
\<close>

theorem array_row_decode_witness:
  "UnmarshalJSON zeroRow (JArray [JString ''Airi'', JString ''Satou''])
     = (\<lparr>Row.Data = [(''0'', ''Airi''), (''1'', ''Satou'')],
         Row.RowID = [], Row.RowClass = [], Row.RowData = [], Row.RowAttr = []\<rparr>, None)"
proof -
  have k: "Itoa 0 = ''0''" "Itoa 1 = ''1''"
    by (simp_all add: Itoa_def natString.simps digitChar_def)
  have l: "[0..<2] = [0, Suc 0]"
    by (simp add: upt_rec)
  show ?thesis
    using array_row_decode [of zeroRow "[''Airi'', ''Satou'']"]
    by (simp add: k l zeroRow_def)
qed

lemma foldName_tags:
  "foldName ''DT_RowId'' = ''DT_ROWID''" "foldName ''DT_RowClass'' = ''DT_ROWCLASS''"
  "foldName ''DT_RowData'' = ''DT_ROWDATA''" "foldName ''DT_RowAttr'' = ''DT_ROWATTR''"
  by (simp_all add: foldName.simps toUpper_def)

lemma find_inj:
  "inj_on f (set xs) \<Longrightarrow> find (\<lambda>t. f t = y) xs = Some t \<longleftrightarrow> t \<in> set xs \<and> f t = y"
  by (induction xs) (auto simp: inj_on_def)

lemma find_exact: "find (\<lambda>t. t = k) xs = (if k \<in> set xs then Some k else None)"
  by (induction xs) auto

lemma structField_inj:
  assumes "inj_on foldName (set tags)"
  shows "structField tags k = Some t \<longleftrightarrow> t \<in> set tags \<and> foldName t = foldName k"
proof (cases "k \<in> set tags")
  case True
  then show ?thesis
    using assms by (auto simp: structField_def find_exact inj_on_def)
next
  case False
  then show ?thesis
    using find_inj [OF assms, of "foldName k" t] by (simp add: structField_def find_exact)
qed

lemma rowCopyTags_inj: "inj_on foldName (set rowCopyTags)"
  by (simp add: inj_on_def rowCopyTags_def foldName_tags)

lemma structField_rowCopy:
  "structField rowCopyTags k = Some t \<longleftrightarrow> t \<in> set rowCopyTags \<and> foldName t = foldName k"
  by (rule structField_inj [OF rowCopyTags_inj])

lemma structField_rowCopy_None:
  "structField rowCopyTags k = None \<longleftrightarrow> (\<forall>t \<in> set rowCopyTags. foldName t \<noteq> foldName k)"
  using structField_rowCopy [of k] by (cases "structField rowCopyTags k") auto


lemma unmarshalString_error: "unmarshalString v cur = Inl e \<Longrightarrow> e = UnmarshalTypeError"
  by (cases v) (simp_all add: unmarshalString_def)

lemma unmarshalMembers_error: "unmarshalMembers ms cur = Inl e \<Longrightarrow> e = UnmarshalTypeError"
  by (induction ms cur rule: unmarshalMembers.induct)
    (auto simp: andThen_def split: sum.splits dest: unmarshalString_error)

lemma unmarshalStringMap_error: "unmarshalStringMap v cur = Inl e \<Longrightarrow> e = UnmarshalTypeError"
  by (cases v) (auto simp: unmarshalStringMap_def dest: unmarshalMembers_error)

lemma unmarshalRowCopy_member_error:
  "unmarshalRowCopy_member k v c = Inl e \<Longrightarrow> e = UnmarshalTypeError"
  by (auto simp: unmarshalRowCopy_member_def andThen_def split: sum.splits option.splits if_splits
      dest: unmarshalString_error unmarshalStringMap_error)

lemma unmarshalRowCopy_struct_error:
  "unmarshalStruct unmarshalRowCopy_member ms c = Inl e \<Longrightarrow> e = UnmarshalTypeError"
  by (induction ms arbitrary: c)
    (auto simp: andThen_def split: sum.splits dest: unmarshalRowCopy_member_error)

lemma unmarshalMembers_object:
  "(k, JObject x) \<in> set ms \<Longrightarrow> unmarshalMembers ms cur = Inl UnmarshalTypeError"
proof (induction ms cur rule: unmarshalMembers.induct)
  case (1 cur)
  then show ?case by simp
next
  case (2 k' v ms cur)
  show ?case
  proof (cases "unmarshalString v []")
    case (Inl e)
    then show ?thesis
      using unmarshalString_error [OF Inl] by (simp add: andThen_def)
  next
    case (Inr s)
    then have "v \<noteq> JObject x"
      by (auto simp: unmarshalString_def)
    with "2.prems" have "(k, JObject x) \<in> set ms"
      by auto
    from "2.IH" [OF this] Inr show ?thesis
      by (simp add: andThen_def)
  qed
qed




lemma tag_facts:
  "''DT_RowId'' \<in> set rowCopyTags" "''DT_RowClass'' \<in> set rowCopyTags"
  "''DT_RowData'' \<in> set rowCopyTags" "''DT_RowAttr'' \<in> set rowCopyTags"
  by (simp_all add: rowCopyTags_def)

lemma structField_tag:
  "t \<in> set rowCopyTags \<Longrightarrow> foldName k = foldName t \<Longrightarrow> structField rowCopyTags k = Some t"
  by (simp add: structField_rowCopy)

lemma structField_other:
  "structField rowCopyTags k = Some t \<Longrightarrow> foldName k \<noteq> foldName u \<Longrightarrow> t \<noteq> u"
  by (auto simp: structField_rowCopy)

lemma structField_cases:
  "structField rowCopyTags k = Some t \<Longrightarrow>
   t = ''DT_RowId'' \<or> t = ''DT_RowClass'' \<or> t = ''DT_RowData'' \<or> t = ''DT_RowAttr''"
  using structField_rowCopy [of k t] by (auto simp: rowCopyTags_def)

lemma member_RowID_set:
  "foldName k = foldName ''DT_RowId'' \<Longrightarrow>
   unmarshalRowCopy_member k (JString s) c = Inr (c\<lparr>rowCopy.RowID := s\<rparr>)"
  using structField_tag [OF tag_facts(1), of k]
  by (simp add: unmarshalRowCopy_member_def andThen_def unmarshalString_def)

lemma member_RowClass_set:
  "foldName k = foldName ''DT_RowClass'' \<Longrightarrow>
   unmarshalRowCopy_member k (JString s) c = Inr (c\<lparr>rowCopy.RowClass := s\<rparr>)"
  using structField_tag [OF tag_facts(2), of k]
  by (simp add: unmarshalRowCopy_member_def andThen_def unmarshalString_def)

lemma member_RowID_other:
  "unmarshalRowCopy_member k v c = Inr c1 \<Longrightarrow> foldName k \<noteq> foldName ''DT_RowId'' \<Longrightarrow>
   rowCopy.RowID c1 = rowCopy.RowID c"
  by (auto simp: unmarshalRowCopy_member_def andThen_def
      split: option.splits sum.splits if_splits dest: structField_other)

lemma member_RowClass_other:
  "unmarshalRowCopy_member k v c = Inr c1 \<Longrightarrow> foldName k \<noteq> foldName ''DT_RowClass'' \<Longrightarrow>
   rowCopy.RowClass c1 = rowCopy.RowClass c"
  by (auto simp: unmarshalRowCopy_member_def andThen_def
      split: option.splits sum.splits if_splits dest: structField_other)

lemma member_RowData_other:
  "unmarshalRowCopy_member k v c = Inr c1 \<Longrightarrow> foldName k \<noteq> foldName ''DT_RowData'' \<Longrightarrow>
   rowCopy.RowData c1 = rowCopy.RowData c"
  by (auto simp: unmarshalRowCopy_member_def andThen_def
      split: option.splits sum.splits if_splits dest: structField_other)

lemma member_RowAttr_other:
  "unmarshalRowCopy_member k v c = Inr c1 \<Longrightarrow> foldName k \<noteq> foldName ''DT_RowAttr'' \<Longrightarrow>
   rowCopy.RowAttr c1 = rowCopy.RowAttr c"
  using structField_cases [of k]
  by (auto simp: unmarshalRowCopy_member_def andThen_def
      split: option.splits sum.splits if_splits dest: structField_other)

lemma members_RowID_absent:
  "unmarshalStruct unmarshalRowCopy_member ms c = Inr c' \<Longrightarrow>
   \<forall>(k, v) \<in> set ms. foldName k \<noteq> foldName ''DT_RowId'' \<Longrightarrow>
   rowCopy.RowID c' = rowCopy.RowID c"
  by (induction ms arbitrary: c)
    (auto simp: andThen_def split: sum.splits dest: member_RowID_other)

lemma members_RowClass_absent:
  "unmarshalStruct unmarshalRowCopy_member ms c = Inr c' \<Longrightarrow>
   \<forall>(k, v) \<in> set ms. foldName k \<noteq> foldName ''DT_RowClass'' \<Longrightarrow>
   rowCopy.RowClass c' = rowCopy.RowClass c"
  by (induction ms arbitrary: c)
    (auto simp: andThen_def split: sum.splits dest: member_RowClass_other)

lemma members_RowData_absent:
  "unmarshalStruct unmarshalRowCopy_member ms c = Inr c' \<Longrightarrow>
   \<forall>(k, v) \<in> set ms. foldName k \<noteq> foldName ''DT_RowData'' \<Longrightarrow>
   rowCopy.RowData c' = rowCopy.RowData c"
  by (induction ms arbitrary: c)
    (auto simp: andThen_def split: sum.splits dest: member_RowData_other)

lemma members_RowAttr_absent:
  "unmarshalStruct unmarshalRowCopy_member ms c = Inr c' \<Longrightarrow>
   \<forall>(k, v) \<in> set ms. foldName k \<noteq> foldName ''DT_RowAttr'' \<Longrightarrow>
   rowCopy.RowAttr c' = rowCopy.RowAttr c"
  by (induction ms arbitrary: c)
    (auto simp: andThen_def split: sum.splits dest: member_RowAttr_other)

lemma members_RowID_last:
  "unmarshalStruct unmarshalRowCopy_member (ms1 @ (k, JString s) # ms2) c = Inr c' \<Longrightarrow>
   foldName k = foldName ''DT_RowId'' \<Longrightarrow>
   \<forall>(k', v') \<in> set ms2. foldName k' \<noteq> foldName ''DT_RowId'' \<Longrightarrow>
   rowCopy.RowID c' = s"
proof (induction ms1 arbitrary: c)
  case Nil
  then have "unmarshalStruct unmarshalRowCopy_member ms2 (c\<lparr>rowCopy.RowID := s\<rparr>) = Inr c'"
    by (simp add: andThen_def member_RowID_set)
  from members_RowID_absent [OF this Nil.prems(3)] show ?case
    by simp
next
  case (Cons m ms1)
  then show ?case
    by (cases m) (auto simp: andThen_def split: sum.splits)
qed

lemma members_RowClass_last:
  "unmarshalStruct unmarshalRowCopy_member (ms1 @ (k, JString s) # ms2) c = Inr c' \<Longrightarrow>
   foldName k = foldName ''DT_RowClass'' \<Longrightarrow>
   \<forall>(k', v') \<in> set ms2. foldName k' \<noteq> foldName ''DT_RowClass'' \<Longrightarrow>
   rowCopy.RowClass c' = s"
proof (induction ms1 arbitrary: c)
  case Nil
  then have "unmarshalStruct unmarshalRowCopy_member ms2 (c\<lparr>rowCopy.RowClass := s\<rparr>) = Inr c'"
    by (simp add: andThen_def member_RowClass_set)
  from members_RowClass_absent [OF this Nil.prems(3)] show ?case
    by simp
next
  case (Cons m ms1)
  then show ?case
    by (cases m) (auto simp: andThen_def split: sum.splits)
qed





lemma update_member: "(k, v) \<in> set (AList.update k v al)"
  by (induction al) auto

lemma update_keeps: "(k', v') \<in> set al \<Longrightarrow> k' \<noteq> k \<Longrightarrow> (k', v') \<in> set (AList.update k v al)"
  by (induction al) auto

lemma UnmarshalJSON_object_value:
  assumes "(k, JObject x) \<in> set ms"
  shows "snd (UnmarshalJSON r (JObject ms)) = Some UnmarshalTypeError"
proof (cases "unmarshalStruct unmarshalRowCopy_member ms zeroRowCopy")
  case (Inl e)
  then show ?thesis
    using unmarshalRowCopy_struct_error [OF Inl]
    by (simp add: UnmarshalJSON_def unmarshalSlice_def unmarshalObject_def)
next
  case (Inr c)
  then show ?thesis
    using unmarshalMembers_object [OF assms, of "[]"]
    by (simp add: UnmarshalJSON_def unmarshalSlice_def unmarshalObject_def
        unmarshalStringMap_def Let_def)
qed

lemma MarshalJSON_object_value:
  assumes "Row.RowData r \<noteq> [] \<or> Row.RowAttr r \<noteq> []"
  shows "\<exists>ms k x. MarshalJSON r = JObject ms \<and> (k, JObject x) \<in> set ms"
proof (cases "Row.RowAttr r \<noteq> []")
  case True
  then show ?thesis
    by (auto simp: MarshalJSON_def Let_def marshalStringMap_def intro: update_member)
next
  case False
  with assms have "Row.RowData r \<noteq> []"
    by simp
  with False show ?thesis
    by (auto simp: MarshalJSON_def Let_def marshalStringMap_def intro: update_member)
qed

lemma decode_encoded_row_error:
  assumes "Row.RowData r \<noteq> [] \<or> Row.RowAttr r \<noteq> []"
  shows "snd (UnmarshalJSON r0 (MarshalJSON r)) = Some UnmarshalTypeError"
proof -
  from MarshalJSON_object_value [OF assms]
  obtain ms k x where "MarshalJSON r = JObject ms" "(k, JObject x) \<in> set ms"
    by blast
  then show ?thesis
    by (simp add: UnmarshalJSON_object_value)
qed

text \<open>
  Claim C1 does not hold of the code. For every row with a non-empty \<open>RowData\<close> or
  \<open>RowAttr\<close>, decoding what \<open>Row.MarshalJSON\<close> produces fails, whatever row it is decoded
  into: the encoding has a member whose value is an object, and the second
  \<open>json.Unmarshal\<close> of \<open>Row.UnmarshalJSON\<close>, into a \<open>map[string]string\<close>, returns an
  \<open>UnmarshalTypeError\<close> for it before the reserved keys are deleted.
\<close>

theorem row_round_trip_fails:
  assumes "Row.RowData r \<noteq> [] \<or> Row.RowAttr r \<noteq> []"
  shows "snd (UnmarshalJSON r0 (MarshalJSON r)) = Some UnmarshalTypeError"
  using assms by (rule decode_encoded_row_error)

text \<open>
  Claim C1, the failing input: a row with one entry in \<open>RowData\<close>, its encoding, and the
  error of decoding that encoding.
\<close>

theorem row_round_trip_fails_witness:
  "MarshalJSON \<lparr>Row.Data = [(''name'', ''Foo'')], Row.RowID = ''row_1'', Row.RowClass = [],
       Row.RowData = [(''k'', ''v'')], Row.RowAttr = []\<rparr>
     = JObject [(''DT_RowData'', JObject [(''k'', JString ''v'')]), (''DT_RowId'', JString ''row_1''),
                (''name'', JString ''Foo'')]
   \<and> snd (UnmarshalJSON zeroRow
       (MarshalJSON \<lparr>Row.Data = [(''name'', ''Foo'')], Row.RowID = ''row_1'', Row.RowClass = [],
          Row.RowData = [(''k'', ''v'')], Row.RowAttr = []\<rparr>)) = Some UnmarshalTypeError"
proof -
  have m: "MarshalJSON \<lparr>Row.Data = [(''name'', ''Foo'')], Row.RowID = ''row_1'', Row.RowClass = [],
       Row.RowData = [(''k'', ''v'')], Row.RowAttr = []\<rparr>
     = JObject [(''DT_RowData'', JObject [(''k'', JString ''v'')]), (''DT_RowId'', JString ''row_1''),
                (''name'', JString ''Foo'')]"
    by (simp add: MarshalJSON_def marshalStringMap_def)
  show ?thesis
    using m row_round_trip_fails [of "\<lparr>Row.Data = [(''name'', ''Foo'')], Row.RowID = ''row_1'',
       Row.RowClass = [], Row.RowData = [(''k'', ''v'')], Row.RowAttr = []\<rparr>" zeroRow]
    by simp
qed

section \<open>Properties of the document codec\<close>

lemma unmarshalElems_round_trip:
  "\<forall>x \<in> set xs. \<forall>c. f (g x) c = Inr x \<Longrightarrow> unmarshalElems f zero (map g xs) cur = Inr xs"
  by (induction xs arbitrary: cur) (simp_all add: andThen_def)

lemma unmarshalSlice_round_trip:
  "\<forall>x \<in> set xs. \<forall>c. f (g x) c = Inr x \<Longrightarrow>
   unmarshalSlice f zero (marshalSlice g xs) cur = Inr xs"
  by (simp add: unmarshalSlice_def marshalSlice_def unmarshalElems_round_trip)

lemma Search_round_trip: "unmarshalObject unmarshalSearch_member (Marshal_Search s) s0 = Inr s"
  by (simp add: unmarshalObject_def Marshal_Search_def unmarshalSearch_member_def structField_def
      andThen_def unmarshalString_def unmarshalBool_def)

lemma Order_round_trip:
  "minInt \<le> Column o' \<Longrightarrow> Column o' \<le> maxInt \<Longrightarrow>
   unmarshalObject unmarshalOrder_member (Marshal_Order o') o0 = Inr o'"
  by (simp add: unmarshalObject_def Marshal_Order_def unmarshalOrder_member_def structField_def
      andThen_def unmarshalString_def unmarshalInt_def)

lemma Column_round_trip: "unmarshalObject unmarshalColumn_member (Marshal_Column c) c0 = Inr c"
  by (simp add: unmarshalObject_def [of unmarshalColumn_member] Marshal_Column_def
      unmarshalColumn_member_def structField_def andThen_def unmarshalString_def unmarshalBool_def
      Search_round_trip)

text \<open>
  The \<open>Request\<close> half of claim C5 holds: a request whose integers are Go \<open>int\<close>s is
  decoded from its encoding without error and unchanged.
\<close>

lemma Request_round_trip:
  assumes "minInt \<le> Request.Draw r" "Request.Draw r \<le> maxInt"
    and "minInt \<le> Start r" "Start r \<le> maxInt"
    and "minInt \<le> Length r" "Length r \<le> maxInt"
    and "\<forall>o' \<in> set (Order r). minInt \<le> Column o' \<and> Column o' \<le> maxInt"
  shows "Unmarshal_Request (Marshal_Request r) = Inr r"
proof -
  have o: "unmarshalSlice (unmarshalObject unmarshalOrder_member) zeroOrder
      (marshalSlice Marshal_Order (Order r)) cur = Inr (Order r)" for cur
    using assms(7) by (intro unmarshalSlice_round_trip) (simp add: Order_round_trip)
  have c: "unmarshalSlice (unmarshalObject unmarshalColumn_member) zeroColumn
      (marshalSlice Marshal_Column (Columns r)) cur = Inr (Columns r)" for cur
    by (intro unmarshalSlice_round_trip) (simp add: Column_round_trip)
  show ?thesis
    using assms(1-6)
    by (simp add: Unmarshal_Request_def Marshal_Request_def unmarshalObject_def [of unmarshalRequest_member]
        unmarshalRequest_member_def structField_def andThen_def unmarshalInt_def
        Search_round_trip o c zeroRequest_def)
qed


lemma unmarshalInt_error: "unmarshalInt v cur = Inl e \<Longrightarrow> e = UnmarshalTypeError"
  by (cases v) (simp_all add: unmarshalInt_def split: if_splits)

lemma UnmarshalJSON_error: "snd (UnmarshalJSON r v) = Some e \<Longrightarrow> e = UnmarshalTypeError"
proof -
  assume a: "snd (UnmarshalJSON r v) = Some e"
  have s: "unmarshalStruct unmarshalRowCopy_member ms c = Inl e' \<Longrightarrow> e' = UnmarshalTypeError"
    for ms c e'
    by (rule unmarshalRowCopy_struct_error)
  have o: "unmarshalObject unmarshalRowCopy_member v c = Inl e' \<Longrightarrow> e' = UnmarshalTypeError"
    for c e'
    by (cases v) (auto simp: unmarshalObject_def dest: s)
  from a show ?thesis
    by (auto simp: UnmarshalJSON_def Let_def split: sum.splits
        dest: o unmarshalStringMap_error)
qed

lemma unmarshalRow_error: "unmarshalRow v r = Inl e \<Longrightarrow> e = UnmarshalTypeError"
  using UnmarshalJSON_error [of r v e]
  by (auto simp: unmarshalRow_def split: prod.splits option.splits)

lemma unmarshalElems_error:
  "\<forall>y c e. f y c = Inl e \<longrightarrow> e = E \<Longrightarrow> unmarshalElems f zero xs cur = Inl e \<Longrightarrow> e = E"
  by (induction xs arbitrary: cur) (auto simp: andThen_def split: sum.splits)

lemma unmarshalSlice_error:
  "\<forall>y c e. f y c = Inl e \<longrightarrow> e = UnmarshalTypeError \<Longrightarrow>
   unmarshalSlice f zero v cur = Inl e \<Longrightarrow> e = UnmarshalTypeError"
  by (cases v) (auto simp: unmarshalSlice_def dest: unmarshalElems_error)

lemma unmarshalResponse_member_error:
  "unmarshalResponse_member k v r = Inl e \<Longrightarrow> e = UnmarshalTypeError"
proof -
  have rows: "\<forall>y c e. unmarshalRow y c = Inl e \<longrightarrow> e = UnmarshalTypeError"
    by (auto dest: unmarshalRow_error)
  show "unmarshalResponse_member k v r = Inl e \<Longrightarrow> e = UnmarshalTypeError"
    by (auto simp: unmarshalResponse_member_def andThen_def
        split: option.splits sum.splits if_splits
        dest: unmarshalInt_error unmarshalString_error unmarshalSlice_error [OF rows])
qed

lemma unmarshalElems_fails:
  "x \<in> set xs \<Longrightarrow> \<forall>c. f x c = Inl E \<Longrightarrow> \<forall>y c e. f y c = Inl e \<longrightarrow> e = E \<Longrightarrow>
   unmarshalElems f zero xs cur = Inl E"
proof (induction xs arbitrary: cur)
  case Nil
  then show ?case by simp
next
  case (Cons y ys)
  show ?case
  proof (cases "f y (case cur of [] \<Rightarrow> zero | c # _ \<Rightarrow> c)")
    case (Inl e)
    with Cons.prems(3) have "e = E"
      by blast
    with Inl show ?thesis
      by (simp add: andThen_def)
  next
    case (Inr a)
    with Cons.prems(2) have "x \<noteq> y"
      by auto
    with Cons.prems(1) have "x \<in> set ys"
      by simp
    from Cons.IH [OF this Cons.prems(2,3)] Inr show ?thesis
      by (simp add: andThen_def)
  qed
qed

lemma unmarshalStruct_fails:
  "(k, v) \<in> set ms \<Longrightarrow> \<forall>a. f k v a = Inl E \<Longrightarrow> \<forall>k v a e. f k v a = Inl e \<longrightarrow> e = E \<Longrightarrow>
   unmarshalStruct f ms a = Inl E"
proof (induction ms arbitrary: a)
  case Nil
  then show ?case by simp
next
  case (Cons m ms)
  obtain k' v' where m: "m = (k', v')"
    by (cases m)
  show ?case
  proof (cases "f k' v' a")
    case (Inl e)
    with Cons.prems(3) have "e = E"
      by blast
    with Inl m show ?thesis
      by (simp add: andThen_def)
  next
    case (Inr b)
    with Cons.prems(2) have "(k, v) \<noteq> (k', v')"
      by auto
    with Cons.prems(1) m have "(k, v) \<in> set ms"
      by auto
    from Cons.IH [OF this Cons.prems(2,3)] Inr m show ?thesis
      by (simp add: andThen_def)
  qed
qed

lemma unmarshalRow_fails:
  "Row.RowData row \<noteq> [] \<or> Row.RowAttr row \<noteq> [] \<Longrightarrow>
   unmarshalRow (MarshalJSON row) c = Inl UnmarshalTypeError"
  using decode_encoded_row_error [of row c]
  by (auto simp: unmarshalRow_def split: prod.splits option.splits)

text \<open>
  Claim C5 does not hold of the code for \<open>Response\<close>. When one of the rows of a
  response has a non-empty \<open>RowData\<close> or \<open>RowAttr\<close>, decoding the encoding of the
  response fails: \<open>Row.UnmarshalJSON\<close> returns its error for the encoding of that row,
  and \<open>json.Unmarshal\<close> passes the error on.
\<close>

theorem document_round_trip_fails:
  assumes "row \<in> set (Response.Data resp)"
    and "Row.RowData row \<noteq> [] \<or> Row.RowAttr row \<noteq> []"
  shows "Unmarshal_Response (Marshal_Response resp) = Inl UnmarshalTypeError"
proof -
  let ?v = "JArray (map MarshalJSON (Response.Data resp))"
  have rows: "\<forall>y c e. unmarshalRow y c = Inl e \<longrightarrow> e = UnmarshalTypeError"
    by (auto dest: unmarshalRow_error)
  have "unmarshalElems unmarshalRow zeroRow (map MarshalJSON (Response.Data resp)) cur
      = Inl UnmarshalTypeError" for cur
    using assms by (intro unmarshalElems_fails [of "MarshalJSON row"] rows)
      (simp_all add: unmarshalRow_fails)
  then have d: "\<forall>a. unmarshalResponse_member ''data'' ?v a = Inl UnmarshalTypeError"
    by (simp add: unmarshalResponse_member_def structField_def unmarshalSlice_def andThen_def)
  have m: "(''data'', ?v) \<in> set ([(''draw'', JNumber (Response.Draw resp)),
        (''recordsTotal'', JNumber (RecordsTotal resp)),
        (''recordsFiltered'', JNumber (RecordsFiltered resp)),
        (''data'', ?v)] @ (if Error resp = [] then [] else [(''error'', JString (Error resp))]))"
    by simp
  have e: "\<forall>k v a e. unmarshalResponse_member k v a = Inl e \<longrightarrow> e = UnmarshalTypeError"
    by (auto dest: unmarshalResponse_member_error)
  have ne: "Response.Data resp \<noteq> []"
    using assms(1) by auto
  show ?thesis
    using unmarshalStruct_fails [OF m d e, of zeroResponse] ne
    by (simp add: Unmarshal_Response_def Marshal_Response_def unmarshalObject_def marshalSlice_def)
qed

text \<open>
  Claim C5, the failing input: a response with one row that has an entry in \<open>RowData\<close>.
\<close>

theorem document_round_trip_fails_witness:
  "\<lparr>Row.Data = [(''name'', ''Foo'')], Row.RowID = [], Row.RowClass = [],
      Row.RowData = [(''k'', ''v'')], Row.RowAttr = []\<rparr>
     \<in> set [\<lparr>Row.Data = [(''name'', ''Foo'')], Row.RowID = [], Row.RowClass = [],
               Row.RowData = [(''k'', ''v'')], Row.RowAttr = []\<rparr>]
   \<and> Unmarshal_Response
        (Marshal_Response
           \<lparr>Response.Draw = 5, RecordsTotal = 2, RecordsFiltered = 2,
              Response.Data = [\<lparr>Row.Data = [(''name'', ''Foo'')], Row.RowID = [], Row.RowClass = [],
                 Row.RowData = [(''k'', ''v'')], Row.RowAttr = []\<rparr>],
              Error = []\<rparr>)
       = Inl UnmarshalTypeError"
  using document_round_trip_fails
    [of "\<lparr>Row.Data = [(''name'', ''Foo'')], Row.RowID = [], Row.RowClass = [],
           Row.RowData = [(''k'', ''v'')], Row.RowAttr = []\<rparr>"
        "\<lparr>Response.Draw = 5, RecordsTotal = 2, RecordsFiltered = 2,
           Response.Data = [\<lparr>Row.Data = [(''name'', ''Foo'')], Row.RowID = [], Row.RowClass = [],
              Row.RowData = [(''k'', ''v'')], Row.RowAttr = []\<rparr>],
           Error = []\<rparr>"]
  by simp

section \<open>Rows and responses that do round-trip\<close>

lemma fold_update_fresh:
  "distinct (map fst xs) \<Longrightarrow> fst ` set xs \<inter> fst ` set acc = {} \<Longrightarrow>
   fold (\<lambda>(k, v) c. AList.update k (g v) c) xs acc = acc @ map (\<lambda>(k, v). (k, g v)) xs"
proof (induction xs arbitrary: acc)
  case Nil
  then show ?case by simp
next
  case (Cons x xs)
  obtain k v where x: "x = (k, v)"
    by (cases x)
  have fresh: "k \<notin> fst ` set acc"
    using Cons.prems(2) x by auto
  have "fst ` set xs \<inter> fst ` set (acc @ [(k, g v)]) = {}"
    using Cons.prems x by auto
  with Cons.IH [of "acc @ [(k, g v)]"] Cons.prems(1) show ?case
    by (simp add: x update_fresh [OF fresh])
qed

lemma tag_not_data_key:
  assumes "\<forall>k \<in> fst ` set D. \<forall>t \<in> set rowCopyTags. foldName k \<noteq> foldName t"
    and "t \<in> set rowCopyTags"
  shows "t \<notin> fst ` set D"
  using assms by blast

lemma MarshalJSON_plain:
  assumes d: "distinct (map fst (Row.Data r))"
    and k: "\<forall>k \<in> fst ` set (Row.Data r). \<forall>t \<in> set rowCopyTags. foldName k \<noteq> foldName t"
    and e: "Row.RowData r = []" "Row.RowAttr r = []"
  shows "MarshalJSON r = JObject (sort_key fst (encodedRow r))"
proof -
  let ?c0 = "map (\<lambda>(k, v). (k, JString v)) (Row.Data r)"
  have c0: "fold (\<lambda>(k, v) c. AList.update k (JString v) c) (Row.Data r) [] = ?c0"
    using fold_update_fresh [OF d, of "[]" JString] by simp
  have keys: "fst ` set ?c0 = fst ` set (Row.Data r)"
    by force
  have i: "''DT_RowId'' \<notin> fst ` set ?c0"
    unfolding keys by (rule tag_not_data_key [OF k tag_facts(1)])
  have c: "''DT_RowClass'' \<notin> fst ` set ?c0"
    unfolding keys by (rule tag_not_data_key [OF k tag_facts(2)])
  have c': "''DT_RowClass'' \<notin> fst ` set (?c0 @ [(''DT_RowId'', JString (Row.RowID r))])"
    using c by simp
  show ?thesis
    unfolding MarshalJSON_def Let_def c0 encodedRow_def
    by (simp add: e update_fresh [OF i] update_fresh [OF c] update_fresh [OF c'])
qed


lemma encodedRow_props:
  assumes d: "distinct (map fst (Row.Data r))"
    and k: "\<forall>k \<in> fst ` set (Row.Data r). \<forall>t \<in> set rowCopyTags. foldName k \<noteq> foldName t"
  shows "distinct (map fst (encodedRow r))"
    and "\<forall>(k, v) \<in> set (encodedRow r).
           (structField rowCopyTags k = None \<or> k = ''DT_RowId'' \<or> k = ''DT_RowClass'')
           \<and> (\<exists>s. v = JString s)"
    and "map_of (encodedRow r) ''DT_RowId''
           = (if Row.RowID r \<noteq> [] then Some (JString (Row.RowID r)) else None)"
    and "map_of (encodedRow r) ''DT_RowClass''
           = (if Row.RowClass r \<noteq> [] then Some (JString (Row.RowClass r)) else None)"
    and "t \<notin> set rowCopyTags \<Longrightarrow>
           map_of (encodedRow r) t = map_option JString (map_of (Row.Data r) t)"
proof -
  let ?c0 = "map (\<lambda>(k, v). (k, JString v)) (Row.Data r)"
  have fst0: "map (fst \<circ> (\<lambda>(k, v). (k, JString v))) (Row.Data r) = map fst (Row.Data r)"
    by (rule map_cong) auto
  have i: "''DT_RowId'' \<notin> fst ` set (Row.Data r)"
    by (rule tag_not_data_key [OF k tag_facts(1)])
  have c: "''DT_RowClass'' \<notin> fst ` set (Row.Data r)"
    by (rule tag_not_data_key [OF k tag_facts(2)])
  have i': "(''DT_RowId'', b) \<notin> set (Row.Data r)" for b
    using i by force
  have c': "(''DT_RowClass'', b) \<notin> set (Row.Data r)" for b
    using c by force
  have m0: "map_of ?c0 t = map_option JString (map_of (Row.Data r) t)" for t
    by (induction "Row.Data r" arbitrary: r) (auto simp: map_of_map)
  have n0: "map_of ?c0 t = None" if "t \<in> set rowCopyTags" for t
    using tag_not_data_key [OF k that] by (simp add: m0 map_of_eq_None_iff)
  show "distinct (map fst (encodedRow r))"
    using d i' c' by (auto simp: encodedRow_def fst0)
  show "\<forall>(k, v) \<in> set (encodedRow r).
           (structField rowCopyTags k = None \<or> k = ''DT_RowId'' \<or> k = ''DT_RowClass'')
           \<and> (\<exists>s. v = JString s)"
    using k by (auto simp: encodedRow_def structField_rowCopy_None split: if_splits) force+
  show "map_of (encodedRow r) ''DT_RowId''
           = (if Row.RowID r \<noteq> [] then Some (JString (Row.RowID r)) else None)"
    using n0 [OF tag_facts(1)] by (simp add: encodedRow_def map_add_def)
  show "map_of (encodedRow r) ''DT_RowClass''
           = (if Row.RowClass r \<noteq> [] then Some (JString (Row.RowClass r)) else None)"
    using n0 [OF tag_facts(2)] by (simp add: encodedRow_def map_add_def)
  show "map_of (encodedRow r) t = map_option JString (map_of (Row.Data r) t)"
    if "t \<notin> set rowCopyTags"
    using that by (auto simp: encodedRow_def map_add_def m0 rowCopyTags_def split: option.splits)
qed


lemma sorted_members:
  assumes "distinct (map fst xs)"
  shows "distinct (map fst (sort_key fst xs))" and "map_of (sort_key fst xs) = map_of xs"
proof -
  have i: "inj_on fst (set xs)" and d: "distinct xs"
    using assms by (simp_all add: distinct_map)
  show 1: "distinct (map fst (sort_key fst xs))"
    using i d by (simp add: distinct_map)
  show "map_of (sort_key fst xs) = map_of xs"
    using map_of_inject_set [OF 1 assms] by simp
qed

lemma struct_succeeds:
  "\<forall>(k, v) \<in> set ms.
     (structField rowCopyTags k = None \<or> k = ''DT_RowId'' \<or> k = ''DT_RowClass'')
     \<and> (\<exists>s. v = JString s) \<Longrightarrow>
   \<exists>c'. unmarshalStruct unmarshalRowCopy_member ms c = Inr c'"
proof (induction ms arbitrary: c)
  case Nil
  then show ?case by simp
next
  case (Cons m ms)
  obtain k s where m: "m = (k, JString s)"
    using Cons.prems by (cases m) auto
  have "\<exists>c1. unmarshalRowCopy_member k (JString s) c = Inr c1"
  proof -
    consider "structField rowCopyTags k = None" | "k = ''DT_RowId''" | "k = ''DT_RowClass''"
      using Cons.prems m by auto
    then show ?thesis
    proof cases
      case 1
      then show ?thesis by (simp add: unmarshalRowCopy_member_def)
    next
      case 2
      then show ?thesis by (simp add: member_RowID_set)
    next
      case 3
      then show ?thesis by (simp add: member_RowClass_set)
    qed
  qed
  then obtain c1 where c1: "unmarshalRowCopy_member k (JString s) c = Inr c1"
    by blast
  from Cons.IH [of c1] Cons.prems obtain c' where
    "unmarshalStruct unmarshalRowCopy_member ms c1 = Inr c'"
    by auto
  with c1 m show ?case
    by (simp add: andThen_def)
qed

lemma members_strings:
  "distinct (map fst ms) \<Longrightarrow> fst ` set ms \<inter> fst ` set cur = {} \<Longrightarrow>
   \<forall>(k, v) \<in> set ms. \<exists>s. v = JString s \<Longrightarrow>
   unmarshalMembers ms cur = Inr (cur @ map (\<lambda>(k, v). (k, jsonString v)) ms)"
proof (induction ms arbitrary: cur)
  case Nil
  then show ?case by simp
next
  case (Cons m ms)
  obtain k s where m: "m = (k, JString s)"
    using Cons.prems(3) by (cases m) auto
  have fresh: "k \<notin> fst ` set cur"
    using Cons.prems(2) m by auto
  have "fst ` set ms \<inter> fst ` set (cur @ [(k, s)]) = {}"
    using Cons.prems(1,2) m by auto
  with Cons.IH [of "cur @ [(k, s)]"] Cons.prems
  have "unmarshalMembers ms (cur @ [(k, s)])
      = Inr ((cur @ [(k, s)]) @ map (\<lambda>(k, v). (k, jsonString v)) ms)"
    by simp
  then show ?case
    by (simp add: m andThen_def unmarshalString_def update_fresh [OF fresh])
qed

lemma fold_delete_map_of:
  "map_of (fold AList.delete ks al) t = (if t \<in> set ks then None else map_of al t)"
  by (induction ks arbitrary: al) (simp_all add: delete_conv')

lemma fold_delete_distinct:
  "distinct (map fst al) \<Longrightarrow> distinct (map fst (fold AList.delete ks al))"
  by (induction ks arbitrary: al) (simp_all add: distinct_delete)


lemma fold_tag_other:
  "structField rowCopyTags k = None \<Longrightarrow> t \<in> set rowCopyTags \<Longrightarrow> foldName k \<noteq> foldName t"
  by (auto simp: structField_rowCopy_None)

text \<open>
  Where the row codec does round-trip: a row without \<open>RowData\<close> and \<open>RowAttr\<close> whose
  data keys are no reserved keys, up to the case of letters, is decoded from its
  encoding without error, with the same data mapping and the same metadata.
\<close>

lemma Row_round_trip:
  assumes d: "distinct (map fst (Row.Data r))"
    and k: "\<forall>k \<in> fst ` set (Row.Data r). \<forall>t \<in> set rowCopyTags. foldName k \<noteq> foldName t"
    and e: "Row.RowData r = []" "Row.RowAttr r = []"
  shows "\<exists>r'. UnmarshalJSON r0 (MarshalJSON r) = (r', None)
           \<and> map_of (Row.Data r') = map_of (Row.Data r)
           \<and> distinct (map fst (Row.Data r'))
           \<and> Row.RowID r' = Row.RowID r \<and> Row.RowClass r' = Row.RowClass r
           \<and> Row.RowData r' = Row.RowData r \<and> Row.RowAttr r' = Row.RowAttr r"
proof -
  define ms where "ms = sort_key fst (encodedRow r)"
  define data where "data = map (\<lambda>(k, v). (k, jsonString v)) ms"
  note p = encodedRow_props [OF d k]
  have enc: "MarshalJSON r = JObject ms"
    unfolding ms_def by (rule MarshalJSON_plain [OF d k e])
  have dist: "distinct (map fst ms)" and mo: "map_of ms = map_of (encodedRow r)"
    unfolding ms_def using sorted_members [OF p(1)] by simp_all
  have mem: "\<forall>(k, v) \<in> set ms.
      (structField rowCopyTags k = None \<or> k = ''DT_RowId'' \<or> k = ''DT_RowClass'')
      \<and> (\<exists>s. v = JString s)"
    unfolding ms_def using p(2) by simp
  have mem': "(structField rowCopyTags k' = None \<or> k' = ''DT_RowId'' \<or> k' = ''DT_RowClass'')
      \<and> (\<exists>s. v' = JString s)" if "(k', v') \<in> set ms" for k' v'
    using mem that by (simp add: Ball_def case_prod_unfold)
  have str: "\<forall>(k, v) \<in> set ms. \<exists>s. v = JString s"
    using mem' by (simp add: Ball_def case_prod_unfold)
  obtain c where c: "unmarshalStruct unmarshalRowCopy_member ms zeroRowCopy = Inr c"
    using struct_succeeds [OF mem] by blast
  have dat: "unmarshalMembers ms [] = Inr data"
    unfolding data_def using members_strings [OF dist _ str, of "[]"] by simp
  have other: "foldName k' \<noteq> foldName t"
    if h: "(k', v') \<in> set ms" "t \<in> set rowCopyTags" "k' \<noteq> t" for k' v' t
  proof -
    from mem' [OF h(1)]
    consider "structField rowCopyTags k' = None" | "k' = ''DT_RowId''" | "k' = ''DT_RowClass''"
      by auto
    then show ?thesis
    proof cases
      case 1
      then show ?thesis using h(2) by (rule fold_tag_other)
    next
      case 2
      have "foldName ''DT_RowId'' \<noteq> foldName t"
        using h(2,3) unfolding 2 by (auto simp: rowCopyTags_def foldName_tags)
      then show ?thesis
        unfolding 2 .
    next
      case 3
      have "foldName ''DT_RowClass'' \<noteq> foldName t"
        using h(2,3) unfolding 3 by (auto simp: rowCopyTags_def foldName_tags)
      then show ?thesis
        unfolding 3 .
    qed
  qed
  have absent: "\<forall>(k', v') \<in> set ms. foldName k' \<noteq> foldName t"
    if h: "t \<in> set rowCopyTags" "map_of ms t = None" for t
  proof -
    have "t \<notin> fst ` set ms"
      using h(2) by (simp add: map_of_eq_None_iff)
    then have 1: "k' \<noteq> t" if "(k', v') \<in> set ms" for k' v'
      using that by (metis fst_conv imageI)
    have "foldName k' \<noteq> foldName t" if "(k', v') \<in> set ms" for k' v'
      using other [OF that h(1) 1 [OF that]] .
    then show ?thesis
      by (simp add: Ball_def case_prod_unfold)
  qed
  have last: "\<exists>ms1 ms2. ms = ms1 @ (t, JString s) # ms2
      \<and> (\<forall>(k', v') \<in> set ms2. foldName k' \<noteq> foldName t)"
    if h: "t \<in> set rowCopyTags" "map_of ms t = Some (JString s)" for t s
  proof -
    from h(2) have "(t, JString s) \<in> set ms"
      by (rule map_of_SomeD)
    then obtain ms1 ms2 where sp: "ms = ms1 @ (t, JString s) # ms2"
      by (auto dest: split_list)
    have "t \<notin> fst ` set ms2"
      using dist unfolding sp by simp
    then have 1: "k' \<noteq> t" if "(k', v') \<in> set ms2" for k' v'
      using that by (metis fst_conv imageI)
    have 2: "(k', v') \<in> set ms" if "(k', v') \<in> set ms2" for k' v'
      using that unfolding sp by simp
    have "foldName k' \<noteq> foldName t" if "(k', v') \<in> set ms2" for k' v'
      using other [OF 2 [OF that] h(1) 1 [OF that]] .
    then have "\<forall>(k', v') \<in> set ms2. foldName k' \<noteq> foldName t"
      by (simp add: Ball_def case_prod_unfold)
    with sp show ?thesis
      by blast
  qed
  have z: "rowCopy.RowID zeroRowCopy = []" "rowCopy.RowClass zeroRowCopy = []"
    "rowCopy.RowData zeroRowCopy = []" "rowCopy.RowAttr zeroRowCopy = []"
    by (simp_all add: zeroRowCopy_def)
  have id: "rowCopy.RowID c = Row.RowID r"
  proof (cases "Row.RowID r = []")
    case True
    then have "map_of ms ''DT_RowId'' = None"
      by (simp add: mo p(3))
    from members_RowID_absent [OF c absent [OF tag_facts(1) this]] True show ?thesis
      by (simp add: z)
  next
    case False
    then have "map_of ms ''DT_RowId'' = Some (JString (Row.RowID r))"
      by (simp add: mo p(3))
    from last [OF tag_facts(1) this] obtain ms1 ms2
      where sp: "ms = ms1 @ (''DT_RowId'', JString (Row.RowID r)) # ms2"
        and n: "\<forall>(k', v') \<in> set ms2. foldName k' \<noteq> foldName ''DT_RowId''"
      by blast
    from c have "unmarshalStruct unmarshalRowCopy_member
        (ms1 @ (''DT_RowId'', JString (Row.RowID r)) # ms2) zeroRowCopy = Inr c"
      by (simp only: sp)
    from members_RowID_last [OF this refl n] show ?thesis .
  qed
  have cl: "rowCopy.RowClass c = Row.RowClass r"
  proof (cases "Row.RowClass r = []")
    case True
    then have "map_of ms ''DT_RowClass'' = None"
      by (simp add: mo p(4))
    from members_RowClass_absent [OF c absent [OF tag_facts(2) this]] True show ?thesis
      by (simp add: z)
  next
    case False
    then have "map_of ms ''DT_RowClass'' = Some (JString (Row.RowClass r))"
      by (simp add: mo p(4))
    from last [OF tag_facts(2) this] obtain ms1 ms2
      where sp: "ms = ms1 @ (''DT_RowClass'', JString (Row.RowClass r)) # ms2"
        and n: "\<forall>(k', v') \<in> set ms2. foldName k' \<noteq> foldName ''DT_RowClass''"
      by blast
    from c have "unmarshalStruct unmarshalRowCopy_member
        (ms1 @ (''DT_RowClass'', JString (Row.RowClass r)) # ms2) zeroRowCopy = Inr c"
      by (simp only: sp)
    from members_RowClass_last [OF this refl n] show ?thesis .
  qed
  have nt: "k' \<noteq> ''DT_RowData'' \<and> k' \<noteq> ''DT_RowAttr''" if h: "(k', v') \<in> set ms" for k' v'
  proof -
    from mem' [OF h]
    consider "structField rowCopyTags k' = None" | "k' = ''DT_RowId''" | "k' = ''DT_RowClass''"
      by auto
    then show ?thesis
    proof cases
      case 1
      have "structField rowCopyTags ''DT_RowData'' \<noteq> None"
        "structField rowCopyTags ''DT_RowAttr'' \<noteq> None"
        using structField_tag [OF tag_facts(3) refl] structField_tag [OF tag_facts(4) refl]
        by simp_all
      with 1 show ?thesis
        by auto
    next
      case 2
      then show ?thesis by simp
    next
      case 3
      then show ?thesis by simp
    qed
  qed
  have "foldName k' \<noteq> foldName ''DT_RowData''" if "(k', v') \<in> set ms" for k' v'
    using other [OF that tag_facts(3)] nt [OF that] by simp
  then have nd: "\<forall>(k', v') \<in> set ms. foldName k' \<noteq> foldName ''DT_RowData''"
    by (simp add: Ball_def case_prod_unfold)
  have "foldName k' \<noteq> foldName ''DT_RowAttr''" if "(k', v') \<in> set ms" for k' v'
    using other [OF that tag_facts(4)] nt [OF that] by simp
  then have na: "\<forall>(k', v') \<in> set ms. foldName k' \<noteq> foldName ''DT_RowAttr''"
    by (simp add: Ball_def case_prod_unfold)
  have rd: "rowCopy.RowData c = []"
    using members_RowData_absent [OF c nd] by (simp add: z)
  have ra: "rowCopy.RowAttr c = []"
    using members_RowAttr_absent [OF c na] by (simp add: z)
  have m: "map_of (fold AList.delete rowCopyTags data) = map_of (Row.Data r)"
  proof
    fix t
    show "map_of (fold AList.delete rowCopyTags data) t = map_of (Row.Data r) t"
    proof (cases "t \<in> set rowCopyTags")
      case True
      have "map_of (Row.Data r) t = None"
        using tag_not_data_key [OF k True] by (simp add: map_of_eq_None_iff)
      with True show ?thesis
        by (simp add: fold_delete_map_of)
    next
      case False
      have "map_of data t = map_option jsonString (map_of ms t)"
        unfolding data_def by (simp add: map_of_map)
      also have "\<dots> = map_option jsonString (map_option JString (map_of (Row.Data r) t))"
        by (simp add: mo p(5) [OF False])
      also have "\<dots> = map_of (Row.Data r) t"
        by (simp add: option.map_comp comp_def option.map_ident)
      finally show ?thesis
        using False by (simp add: fold_delete_map_of)
    qed
  qed
  have dd: "distinct (map fst (fold AList.delete rowCopyTags data))"
  proof -
    have "map fst data = map fst ms"
      unfolding data_def by (rule nth_equalityI) (simp_all add: case_prod_unfold)
    with dist show ?thesis
      by (simp add: fold_delete_distinct)
  qed
  have "UnmarshalJSON r0 (MarshalJSON r)
      = (r0\<lparr>Row.RowID := rowCopy.RowID c, Row.RowClass := rowCopy.RowClass c,
             Row.RowData := rowCopy.RowData c, Row.RowAttr := rowCopy.RowAttr c,
             Row.Data := fold AList.delete rowCopyTags data\<rparr>, None)"
    by (simp add: enc UnmarshalJSON_def unmarshalSlice_def unmarshalObject_def
        unmarshalStringMap_def c dat Let_def)
  then show ?thesis
    using m dd id cl rd ra e by simp
qed


lemma plainRow_round_trip:
  assumes "plainRow r"
  shows "\<exists>r'. UnmarshalJSON r0 (MarshalJSON r) = (r', None) \<and> sameRow r' r"
  using assms Row_round_trip [of r r0] unfolding plainRow_def sameRow_def by auto

lemma unmarshalElems_related:
  "\<forall>x \<in> set xs. \<forall>c. \<exists>y. f (g x) c = Inr y \<and> R y x \<Longrightarrow>
   \<exists>ys. unmarshalElems f zero (map g xs) cur = Inr ys \<and> list_all2 R ys xs"
proof (induction xs arbitrary: cur)
  case Nil
  then show ?case by simp
next
  case (Cons x xs)
  have "\<forall>c. \<exists>y. f (g x) c = Inr y \<and> R y x"
    using Cons.prems by simp
  then obtain y where y: "f (g x) (case cur of [] \<Rightarrow> zero | c # _ \<Rightarrow> c) = Inr y" "R y x"
    by blast
  have "\<forall>x \<in> set xs. \<forall>c. \<exists>y. f (g x) c = Inr y \<and> R y x"
    using Cons.prems by simp
  from Cons.IH [OF this, of "tl cur"]
  obtain ys where ys: "unmarshalElems f zero (map g xs) (tl cur) = Inr ys" "list_all2 R ys xs"
    by blast
  show ?case
    using y ys by (simp add: andThen_def)
qed

text \<open>
  Where the document codec does round-trip a \<open>Response\<close>: when every row is such a row,
  the response is decoded from its encoding without error, with equal rows and with
  every other field, the empty or non-empty \<open>Error\<close> among them, unchanged.
\<close>

lemma Response_round_trip:
  assumes "minInt \<le> Response.Draw resp" "Response.Draw resp \<le> maxInt"
    and "minInt \<le> RecordsTotal resp" "RecordsTotal resp \<le> maxInt"
    and "minInt \<le> RecordsFiltered resp" "RecordsFiltered resp \<le> maxInt"
    and "\<forall>row \<in> set (Response.Data resp). plainRow row"
  shows "\<exists>rows. Unmarshal_Response (Marshal_Response resp) = Inr (resp\<lparr>Response.Data := rows\<rparr>)
           \<and> list_all2 sameRow rows (Response.Data resp)"
proof -
  have row: "\<forall>x \<in> set (Response.Data resp). \<forall>c. \<exists>y. unmarshalRow (MarshalJSON x) c = Inr y \<and> sameRow y x"
  proof (intro ballI allI)
    fix x c
    assume "x \<in> set (Response.Data resp)"
    with assms(7) have "plainRow x"
      by blast
    from plainRow_round_trip [OF this, of c] show "\<exists>y. unmarshalRow (MarshalJSON x) c = Inr y \<and> sameRow y x"
      by (auto simp: unmarshalRow_def)
  qed
  obtain rows where rows: "unmarshalSlice unmarshalRow zeroRow
      (marshalSlice MarshalJSON (Response.Data resp)) [] = Inr rows"
    "list_all2 sameRow rows (Response.Data resp)"
  proof (cases "Response.Data resp = []")
    case True
    then show ?thesis
      using that [of "[]"] by (simp add: unmarshalSlice_def marshalSlice_def)
  next
    case False
    then show ?thesis
      using unmarshalElems_related [OF row, of zeroRow "[]"] that
      by (auto simp: unmarshalSlice_def marshalSlice_def)
  qed
  have "Unmarshal_Response (Marshal_Response resp) = Inr (resp\<lparr>Response.Data := rows\<rparr>)"
    using assms(1-6) rows(1)
    by (simp add: Unmarshal_Response_def Marshal_Response_def unmarshalObject_def
        unmarshalResponse_member_def structField_def andThen_def unmarshalInt_def
        unmarshalString_def zeroResponse_def)
  with rows(2) show ?thesis
    by blast
qed

end
